theory Spec2Isabelle
  imports Complex_Main "HOL-Library.Sublist"
begin

section \<open>JavaScript strings\<close>

text \<open>
  A JavaScript string is modelled as a \<^typ>\<open>string\<close>, one \<^typ>\<open>char\<close> per
  code unit, so its code units are those below 256. \<open>toLowerCase\<close> maps the
  capital letters among them to their small letters, 32 places on: the codes 65 to 90
  (\<open>A\<close> to \<open>Z\<close>) and 192 to 222 without 215, the multiplication sign. Every other
  character is left as it is.
\<close>

definition lowerChar :: "char \<Rightarrow> char" where
  "lowerChar c =
     (let n = (of_char c :: nat)
      in if (65 \<le> n \<and> n \<le> 90) \<or> (192 \<le> n \<and> n \<le> 222 \<and> n \<noteq> 215)
         then char_of (n + 32) else c)"

definition toLowerCase :: "string \<Rightarrow> string" where
  "toLowerCase s = map lowerChar s"

text \<open>\<open>s.includes(p)\<close>: \<open>p\<close> occurs in \<open>s\<close> as a contiguous run.\<close>

fun str_includes :: "string \<Rightarrow> string \<Rightarrow> bool" where
  "str_includes [] p = (p = [])"
| "str_includes (c # cs) p = (prefix p (c # cs) \<or> str_includes cs p)"

text \<open>\<open>c.repeat(n)\<close> for a one-character string \<open>c\<close>.\<close>

definition repeat :: "char \<Rightarrow> nat \<Rightarrow> string" where
  "repeat c n = replicate n c"

text \<open>
  Setting a key of a \<open>Map\<close>, kept as the list of its entries in insertion order:
  a key that is present keeps its place and gets the new value.
\<close>

fun mapSet :: "'k \<Rightarrow> 'v \<Rightarrow> ('k \<times> 'v) list \<Rightarrow> ('k \<times> 'v) list" where
  "mapSet k v [] = [(k, v)]"
| "mapSet k v ((k', v') # kvs) = (if k = k' then (k, v) # kvs else (k', v') # mapSet k v kvs)"

text \<open>
  The value of a digit, up to base 16, and the number that a non-empty run of digits of
  a base writes.
\<close>

definition digitOf :: "char \<Rightarrow> int option" where
  "digitOf c =
     (let n = (of_char c :: int)
      in if 48 \<le> n \<and> n \<le> 57 then Some (n - 48)
         else if 65 \<le> n \<and> n \<le> 70 then Some (n - 55)
         else if 97 \<le> n \<and> n \<le> 102 then Some (n - 87)
         else None)"

definition isDigitOf :: "int \<Rightarrow> char \<Rightarrow> bool" where
  "isDigitOf base c = (case digitOf c of Some d \<Rightarrow> d < base | None \<Rightarrow> False)"

definition digitsValue :: "int \<Rightarrow> string \<Rightarrow> int" where
  "digitsValue base ds =
     foldl (\<lambda>acc c. acc * base + (case digitOf c of Some d \<Rightarrow> d | None \<Rightarrow> 0)) 0 ds"

definition parseDigits :: "int \<Rightarrow> string \<Rightarrow> int option" where
  "parseDigits base ds =
     (if ds \<noteq> [] \<and> list_all (isDigitOf base) ds then Some (digitsValue base ds) else None)"

text \<open>
  A key that is an array index: the decimal numeral, without leading zeros, of a number
  up to \<open>2 ^ 32 - 2\<close>.
\<close>

definition arrayIndex :: "string \<Rightarrow> int option" where
  "arrayIndex k =
     (case parseDigits 10 k of
        Some n \<Rightarrow>
          if (k = ''0'' \<or> hd k \<noteq> CHR ''0'') \<and> n \<le> 4294967294 then Some n else None
      | None \<Rightarrow> None)"

text \<open>
  Setting a key of an object created by \<open>{}\<close>, kept as the list of its own entries
  in the order in which they are enumerated: first the keys that are array indices, in
  ascending order, then the other keys in insertion order. A key that is present keeps
  its place and gets the new value. The key \<open>__proto__\<close> is the accessor of
  \<open>Object.prototype\<close>: assigning to it makes no entry (assigning an object, such as
  a \<open>File\<close>, replaces the prototype, which is not modelled).
\<close>

fun insertIndexed :: "int \<Rightarrow> string \<Rightarrow> 'v \<Rightarrow> (string \<times> 'v) list \<Rightarrow> (string \<times> 'v) list" where
  "insertIndexed n k v [] = [(k, v)]"
| "insertIndexed n k v ((k', v') # kvs) =
     (case arrayIndex k' of
        Some m \<Rightarrow>
          if m < n then (k', v') # insertIndexed n k v kvs else (k, v) # (k', v') # kvs
      | None \<Rightarrow> (k, v) # (k', v') # kvs)"

definition objectSet :: "string \<Rightarrow> 'v \<Rightarrow> (string \<times> 'v) list \<Rightarrow> (string \<times> 'v) list" where
  "objectSet k v kvs =
     (if k = ''__proto__'' then kvs
      else if k \<in> set (map fst kvs) then mapSet k v kvs
      else (case arrayIndex k of
              Some n \<Rightarrow> insertIndexed n k v kvs
            | None \<Rightarrow> kvs @ [(k, v)]))"

section \<open>Masking in the session recorder (src/record.js)\<close>

text \<open>
  The options object of \<open>SessionRecorder\<close>, as far as masking reads it. The
  constructor takes an object in which every key may be absent.
\<close>

record recorder_user_options =
  user_maskSensitiveData :: "bool option"
  user_maskPatterns :: "string list option"

record recorder_options =
  maskSensitiveDataFlag :: bool
  maskPatterns :: "string list"

text \<open>
  \<open>maskSensitiveData: options.maskSensitiveData !== false\<close> and
  \<open>maskPatterns: options.maskPatterns || [...]\<close>, followed by the spread
  \<open>...options\<close>, which writes every key that is present over the default.
\<close>

definition recorderOptions :: "recorder_user_options \<Rightarrow> recorder_options" where
  "recorderOptions u =
     (let d = \<lparr> maskSensitiveDataFlag = (user_maskSensitiveData u \<noteq> Some False),
                maskPatterns = (case user_maskPatterns u of
                                  Some ps \<Rightarrow> ps
                                | None \<Rightarrow> [''password'', ''card'', ''ssn'', ''email'']) \<rparr>;
          d1 = (case user_maskSensitiveData u of
                  Some b \<Rightarrow> d\<lparr> maskSensitiveDataFlag := b \<rparr> | None \<Rightarrow> d)
      in (case user_maskPatterns u of Some ps \<Rightarrow> d1\<lparr> maskPatterns := ps \<rparr> | None \<Rightarrow> d1))"

definition defaultRecorderOptions :: recorder_options where
  "defaultRecorderOptions =
     recorderOptions \<lparr> user_maskSensitiveData = None, user_maskPatterns = None \<rparr>"

text \<open>
  \<open>maskPatterns.some(pattern => fieldName.toLowerCase().includes(pattern.toLowerCase()))\<close>
\<close>

definition shouldMask :: "recorder_options \<Rightarrow> string \<Rightarrow> bool" where
  "shouldMask opts fieldName =
     list_ex (\<lambda>pattern. str_includes (toLowerCase fieldName) (toLowerCase pattern))
       (maskPatterns opts)"

text \<open>
  A value handed to \<open>maskSensitiveData\<close>: the \<open>value\<close> of a form control,
  which is a string, or an entry of a \<open>FormData\<close>, which is a string or a
  \<open>File\<close>.
\<close>

datatype field_value = TextValue string | FileValue

text \<open>
  \<open>Math.min(value.length, 8)\<close> as \<open>repeat\<close> takes it: a \<open>File\<close> has no
  \<open>length\<close>, the minimum is \<open>NaN\<close>, and \<open>repeat(NaN)\<close> repeats 0 times.
\<close>

definition markerLength :: "field_value \<Rightarrow> nat" where
  "markerLength v = (case v of TextValue s \<Rightarrow> min (length s) 8 | FileValue \<Rightarrow> 0)"

text \<open>
  \<open>SessionRecorder.maskSensitiveData(value, fieldName)\<close>. The empty string is the
  falsy value.
\<close>

definition maskSensitiveData ::
  "recorder_options \<Rightarrow> field_value \<Rightarrow> string \<Rightarrow> field_value" where
  "maskSensitiveData opts v fieldName =
     (if \<not> maskSensitiveDataFlag opts \<or> v = TextValue [] then v
      else if shouldMask opts fieldName then TextValue (repeat CHR ''*'' (markerLength v))
      else v)"

text \<open>
  The \<open>input\<close> listener of \<open>recordFormInputs\<close> stores
  \<open>value: this.maskSensitiveData(target.value, target.name || target.id)\<close>.
\<close>

definition inputStoredValue ::
  "recorder_options \<Rightarrow> string \<Rightarrow> string \<Rightarrow> string \<Rightarrow> field_value" where
  "inputStoredValue opts targetValue targetName targetId =
     maskSensitiveData opts (TextValue targetValue)
       (if targetName \<noteq> [] then targetName else targetId)"

text \<open>
  The \<open>submit\<close> listener stores \<open>formData: data\<close>, where
  \<open>data[key] = this.maskSensitiveData(value, key)\<close> for every entry of the form's
  \<open>FormData\<close>, in order.
\<close>

definition submitFormData ::
  "recorder_options \<Rightarrow> (string \<times> field_value) list \<Rightarrow> (string \<times> field_value) list" where
  "submitFormData opts entries =
     foldl (\<lambda>data (key, v). objectSet key (maskSensitiveData opts v key) data) [] entries"

section \<open>Masking in the network tracker (src/core/network.js)\<close>

text \<open>\<open>NetworkTracker.isSensitiveField\<close> and \<open>NetworkTracker.maskValue\<close> on strings.\<close>

definition isSensitiveField :: "string list \<Rightarrow> string \<Rightarrow> bool" where
  "isSensitiveField patterns fieldName =
     list_ex (\<lambda>pattern. str_includes (toLowerCase fieldName) (toLowerCase pattern)) patterns"

definition maskValue :: "string \<Rightarrow> string" where
  "maskValue v = (if v = [] then v else repeat CHR ''*'' (min (length v) 8))"

section \<open>The selector of an element (src/record.js, getElementSelector)\<close>

text \<open>
  What the resolver reads of a DOM element: its tag name, its \<open>id\<close>, its
  \<open>className\<close>, whether it is \<open>document.documentElement\<close>, and its
  \<open>parentElement\<close> (\<open>None\<close> is \<open>null\<close>). The \<open>className\<close> of an HTML
  element is a string; that of an SVG element is an \<open>SVGAnimatedString\<close>, an object
  that is truthy and has no method \<open>split\<close>.
\<close>

datatype class_name = ClassString string | SVGAnimatedString

datatype element =
  Element (tagName: string) (elemId: string) (className: class_name)
          (isDocumentElement: bool) (parentElement: "element option")

text \<open>The error that calling a missing method throws.\<close>

datatype js_error = TypeError

text \<open>\<open>s.split(sep)\<close> for a one-character separator, and \<open>xs.join(sep)\<close>.\<close>

primrec splitOn :: "char \<Rightarrow> string \<Rightarrow> string list" where
  "splitOn sep [] = [[]]"
| "splitOn sep (c # cs) =
     (if c = sep then [] # splitOn sep cs
      else (case splitOn sep cs of [] \<Rightarrow> [[c]] | w # ws \<Rightarrow> (c # w) # ws))"

fun joinWith :: "string \<Rightarrow> string list \<Rightarrow> string" where
  "joinWith sep [] = []"
| "joinWith sep [w] = w"
| "joinWith sep (w # ws) = w @ sep @ joinWith sep ws"

text \<open>\<open>className.split(' ').filter(c => c)\<close> on a string.\<close>

definition classTokens :: "string \<Rightarrow> string list" where
  "classTokens cn = filter (\<lambda>c. c \<noteq> []) (splitOn CHR '' '' cn)"

text \<open>
  The selector of the element itself: the lower-cased tag name, then \<open>#id\<close> if the
  element has an id, else \<open>.\<close> and its class tokens joined by dots if its class name
  is truthy. The class name is read only when the element has no id; on an
  \<open>SVGAnimatedString\<close> the call of \<open>split\<close> throws.
\<close>

definition baseSelector :: "element \<Rightarrow> js_error + string" where
  "baseSelector e =
     (if elemId e \<noteq> [] then Inr (toLowerCase (tagName e) @ ''#'' @ elemId e)
      else (case className e of
              ClassString c \<Rightarrow>
                Inr (toLowerCase (tagName e) @
                       (if c \<noteq> [] then ''.'' @ joinWith ''.'' (classTokens c) else []))
            | SVGAnimatedString \<Rightarrow> Inl TypeError))"

text \<open>
  The \<open>while\<close> loop over the ancestors: \<open>parent\<close>, \<open>depth\<close> and
  \<open>selector\<close> are its variables. It stops at \<open>null\<close>, at the document element,
  at depth 3, and (\<open>break\<close>) at the first ancestor that has an id. The class name of
  an ancestor without an id is read as that of the element is.
\<close>

fun walkParents :: "element option \<Rightarrow> nat \<Rightarrow> string \<Rightarrow> js_error + string" where
  "walkParents None depth selector = Inr selector"
| "walkParents (Some (Element t i c isRoot par)) depth selector =
     (if isRoot \<or> \<not> depth < 3 then Inr selector
      else if i \<noteq> [] then Inr (toLowerCase t @ ''#'' @ i @ '' > '' @ selector)
      else (case c of
              ClassString cs \<Rightarrow>
                walkParents par (depth + 1)
                  (if cs \<noteq> [] then
                     (let classes = take 2 (classTokens cs)
                      in if length classes > 0
                         then toLowerCase t @ ''.'' @ joinWith ''.'' classes @ '' > '' @ selector
                         else selector)
                   else selector)
            | SVGAnimatedString \<Rightarrow> Inl TypeError))"

definition getElementSelector :: "element option \<Rightarrow> js_error + string" where
  "getElementSelector el =
     (case el of
        None \<Rightarrow> Inr ''html''
      | Some e \<Rightarrow>
          if isDocumentElement e then Inr ''html''
          else (case baseSelector e of
                  Inl err \<Rightarrow> Inl err
                | Inr selector \<Rightarrow> walkParents (parentElement e) 0 selector))"

text \<open>
  The chain of an element and its ancestors consists of elements whose class names are
  strings, as those of HTML elements are.
\<close>

fun stringClassNames :: "element option \<Rightarrow> bool" where
  "stringClassNames None = True"
| "stringClassNames (Some (Element t i c isRoot par)) =
     (case c of ClassString cs \<Rightarrow> stringClassNames par | SVGAnimatedString \<Rightarrow> False)"

text \<open>
  The result told in parts, for such a chain. The qualifier of an element: its tag, then
  \<open>#id\<close> or its class tokens. The qualifiers that the ancestors contribute, outermost
  first: an ancestor with an id contributes \<open>tag#id\<close> and ends the walk; one with class
  tokens contributes \<open>tag\<close> and its first two tokens; one with neither contributes
  nothing, but counts as a level.
\<close>

definition classText :: "class_name \<Rightarrow> string" where
  "classText c = (case c of ClassString cs \<Rightarrow> cs | SVGAnimatedString \<Rightarrow> [])"

definition elementQualifier :: "element \<Rightarrow> string" where
  "elementQualifier e =
     toLowerCase (tagName e) @
       (if elemId e \<noteq> [] then ''#'' @ elemId e
        else if classText (className e) \<noteq> []
             then ''.'' @ joinWith ''.'' (classTokens (classText (className e)))
             else [])"

fun ancestorQualifiers :: "element option \<Rightarrow> nat \<Rightarrow> string list" where
  "ancestorQualifiers None depth = []"
| "ancestorQualifiers (Some (Element t i c isRoot par)) depth =
     (if isRoot \<or> \<not> depth < 3 then []
      else if i \<noteq> [] then [toLowerCase t @ ''#'' @ i]
      else ancestorQualifiers par (depth + 1) @
             (if take 2 (classTokens (classText c)) \<noteq> []
              then [toLowerCase t @ ''.'' @ joinWith ''.'' (take 2 (classTokens (classText c)))]
              else []))"

definition prependQualifiers :: "string list \<Rightarrow> string \<Rightarrow> string" where
  "prependQualifiers qs selector = concat (map (\<lambda>q. q @ '' > '') qs) @ selector"

section \<open>JavaScript values\<close>

text \<open>
  The values that session data and event fields are made of, as \<open>JSON.parse\<close>
  gives them. A number is the real that the double is (JSON has no \<open>NaN\<close> and no
  infinity); an object is the list of its keys and values.
\<close>

datatype js_value =
    JUndefined
  | JNull
  | JBool bool
  | JNum real
  | JStr string
  | JArr "js_value list"
  | JObj "(string \<times> js_value) list"

text \<open>Truthiness, as \<open>!v\<close>, \<open>v && ...\<close> and \<open>if (v)\<close> test it.\<close>

fun truthy :: "js_value \<Rightarrow> bool" where
  "truthy JUndefined = False"
| "truthy JNull = False"
| "truthy (JBool b) = b"
| "truthy (JNum x) = (x \<noteq> 0)"
| "truthy (JStr s) = (s \<noteq> [])"
| "truthy (JArr xs) = True"
| "truthy (JObj kvs) = True"

section \<open>The suspicious-activity tracker (src/core/suspicious.js)\<close>

text \<open>
  The constructor's options, as far as the threshold goes: the key
  \<open>suspiciousThreshold\<close> may be absent (\<open>None\<close>).
  \<open>suspiciousThreshold: options.suspiciousThreshold || 0.8\<close> gives the default to a
  missing or zero value; the spread \<open>...options\<close> that follows writes a present key
  over it again.
\<close>

definition trackerThreshold :: "real option \<Rightarrow> real" where
  "trackerThreshold given =
     (let d = (case given of Some t \<Rightarrow> if t \<noteq> 0 then t else 0.8 | None \<Rightarrow> 0.8)
      in (case given of Some t \<Rightarrow> t | None \<Rightarrow> d))"

text \<open>An event handed to \<open>record\<close>: its \<open>type\<close> and its other fields.\<close>

record sus_event =
  ev_type :: string
  ev_fields :: "(string \<times> js_value) list"

text \<open>
  A stored record: \<open>{...event, timestamp, url, severity}\<close>.
\<close>

record sus_record =
  rec_event :: sus_event
  rec_timestamp :: int
  rec_url :: string
  severity :: real

text \<open>The console line written for a record: \<open>[SUSPICIOUS]\<close> or \<open>[ACTIVITY]\<close>.\<close>

datatype console_line = Suspicious sus_record | Activity sus_record

text \<open>
  The tracker: the threshold of its options, \<open>records\<close>, \<open>accessedValues\<close>
  (a \<open>Set\<close>, kept here in insertion order), the timestamp of \<open>lastClick\<close>
  (\<open>None\<close> is \<open>null\<close>), and the lines it has written to the console.
\<close>

record tracker =
  suspiciousThreshold :: real
  records :: "sus_record list"
  accessedValues :: "string list"
  lastClick :: "int option"
  console :: "console_line list"

definition newTracker :: "real option \<Rightarrow> tracker" where
  "newTracker given =
     \<lparr> suspiciousThreshold = trackerThreshold given, records = [],
       accessedValues = [], lastClick = None, console = [] \<rparr>"

text \<open>\<open>calculateSeverity(event)\<close>: the \<open>switch\<close> on the type, 0 by default.\<close>

definition calculateSeverity :: "sus_event \<Rightarrow> real" where
  "calculateSeverity event =
     (if ev_type event = ''value-access'' then 0.6
      else if ev_type event = ''encoding-attempt'' then 0.8
      else if ev_type event = ''external-script'' then 0.9
      else if ev_type event = ''domain-mismatch'' then 1.0
      else if ev_type event = ''hidden-click'' then 0.7
      else if ev_type event = ''iframe-click'' then 0.8
      else if ev_type event = ''element-disabling'' then 0.6
      else if ev_type event = ''sensitive-network'' then 0.9
      else 0)"

text \<open>
  \<open>record(event)\<close>, with \<open>Date.now()\<close> and \<open>window.location.href\<close> as
  arguments. The write to local storage and to the remote endpoint (\<open>saveRecord\<close>)
  does not touch the tracker and is left out.
\<close>

definition trackerRecord :: "int \<Rightarrow> string \<Rightarrow> sus_event \<Rightarrow> tracker \<Rightarrow> tracker" where
  "trackerRecord now href event s =
     (let r = \<lparr> rec_event = event, rec_timestamp = now, rec_url = href,
                severity = calculateSeverity event \<rparr>
      in s\<lparr> records := records s @ [r],
            console := console s @
              [if severity r \<ge> suspiciousThreshold s then Suspicious r else Activity r] \<rparr>)"

text \<open>
  Reading a key of a stored record: the record's own \<open>timestamp\<close>, \<open>url\<close> and
  \<open>severity\<close> come after the spread \<open>...event\<close> and so hide a field of the
  event that has the same key.
\<close>

definition recordField :: "sus_record \<Rightarrow> string \<Rightarrow> js_value option" where
  "recordField r k =
     (if k = ''timestamp'' then Some (JNum (real_of_int (rec_timestamp r)))
      else if k = ''url'' then Some (JStr (rec_url r))
      else if k = ''severity'' then Some (JNum (severity r))
      else if k = ''type'' then Some (JStr (ev_type (rec_event r)))
      else map_of (ev_fields (rec_event r)) k)"

text \<open>\<open>getSuspiciousRecords()\<close>\<close>

definition getSuspiciousRecords :: "tracker \<Rightarrow> sus_record list" where
  "getSuspiciousRecords s =
     filter (\<lambda>r. severity r \<ge> suspiciousThreshold s) (records s)"

text \<open>
  What the click listener of \<open>trackHiddenClicks\<close> reads of the clicked element: its
  tag name, its selector, the computed \<open>opacity\<close>, \<open>visibility\<close> and
  \<open>zIndex\<close>, what \<open>parseInt\<close> makes of the latter (\<open>None\<close> is
  \<open>NaN\<close>), and whether it is or lies in an \<open>iframe\<close>.
\<close>

record click_target =
  ct_tagName :: string
  ct_selector :: string
  ct_opacity :: string
  ct_visibility :: string
  ct_zIndex :: string
  ct_zIndexParsed :: "int option"
  ct_inIframe :: bool

text \<open>
  The click listener: it stores the time of the click in \<open>lastClick\<close>, then records a
  \<open>hidden-click\<close> and an \<open>iframe-click\<close> where they apply.
\<close>

definition onClick :: "int \<Rightarrow> string \<Rightarrow> click_target \<Rightarrow> tracker \<Rightarrow> tracker" where
  "onClick now href el s =
     (let s1 = s\<lparr> lastClick := Some now \<rparr>;
          s2 = (if ct_opacity el = ''0'' \<or> ct_visibility el = ''hidden''
                   \<or> (case ct_zIndexParsed el of Some z \<Rightarrow> z > 1000 | None \<Rightarrow> False)
                then trackerRecord now href
                       \<lparr> ev_type = ''hidden-click'',
                         ev_fields = [(''element'', JStr (ct_tagName el)),
                                      (''selector'', JStr (ct_selector el)),
                                      (''style'',
                                       JObj [(''opacity'', JStr (ct_opacity el)),
                                             (''visibility'', JStr (ct_visibility el)),
                                             (''zIndex'', JStr (ct_zIndex el))])] \<rparr> s1
                else s1)
      in if ct_tagName el = ''IFRAME'' \<or> ct_inIframe el
         then trackerRecord now href
                \<lparr> ev_type = ''iframe-click'',
                  ev_fields = [(''element'', JStr (ct_tagName el)),
                               (''selector'', JStr (ct_selector el))] \<rparr> s2
         else s2)"

text \<open>
  \<open>triggeredByClick: this.lastClick && (Date.now() - this.lastClick.timestamp < 1000)\<close>:
  \<open>null\<close> when there has been no click, else the comparison.
\<close>

definition triggeredByClick :: "int \<Rightarrow> tracker \<Rightarrow> js_value" where
  "triggeredByClick now s =
     (case lastClick s of None \<Rightarrow> JNull | Some t \<Rightarrow> JBool (now - t < 1000))"

text \<open>
  The wrapper that \<open>trackSensitiveNetwork\<close> puts around \<open>fetch\<close>, as far as the
  tracker goes: \<open>httpMethod\<close> and \<open>reqBody\<close> are \<open>init.method\<close> and \<open>init.body\<close>
  (\<open>None\<close> when absent). A record is made for a \<open>POST\<close> whose body contains a
  value of \<open>accessedValues\<close>.
\<close>

definition onFetch ::
  "int \<Rightarrow> string \<Rightarrow> string \<Rightarrow> string option \<Rightarrow> string option \<Rightarrow> tracker \<Rightarrow> tracker" where
  "onFetch now href url httpMethod reqBody s =
     (let m = (case httpMethod of Some m \<Rightarrow> if m \<noteq> [] then m else ''GET'' | None \<Rightarrow> ''GET'')
      in if m = ''POST'' \<and> reqBody \<noteq> None \<and> reqBody \<noteq> Some [] then
           (if list_ex (\<lambda>v. str_includes (the reqBody) v) (accessedValues s)
            then trackerRecord now href
                   \<lparr> ev_type = ''sensitive-network'',
                     ev_fields = [(''url'', JStr url), (''method'', JStr m),
                                  (''triggeredByClick'', triggeredByClick now s)] \<rparr> s
            else s)
         else s)"

text \<open>
  What the getter that \<open>trackValueAccess\<close> installs on
  \<open>HTMLInputElement.prototype\<close> reads of the input element it is called on. Inside
  the getter \<open>this\<close> is that element, not the tracker: \<open>ie_accessedValues\<close> is
  the element's own property \<open>accessedValues\<close> (\<open>None\<close> is \<open>undefined\<close>, as
  on every element to which the page has not added one), and \<open>ie_selector\<close> is what
  the element's own method \<open>getSelector\<close> returns (\<open>None\<close> when it has no such
  method).
\<close>

record input_element =
  ie_value :: string
  ie_tagName :: string
  ie_name :: string
  ie_accessedValues :: "string list option"
  ie_selector :: "string option"

datatype read_outcome = ReadReturned string | ReadThrewTypeError

text \<open>
  The getter: \<open>this.accessedValues.add(value)\<close> throws when the element has no
  \<open>accessedValues\<close>, and otherwise adds to the element's set; building the event,
  \<open>this.getSelector()\<close> throws when the element has no such method. The
  \<open>accessedValues\<close> of the tracker is not touched on any path.
\<close>

definition onValueRead ::
  "int \<Rightarrow> string \<Rightarrow> input_element \<Rightarrow> tracker \<Rightarrow> read_outcome \<times> tracker" where
  "onValueRead now href el s =
     (case ie_accessedValues el of
        None \<Rightarrow> (ReadThrewTypeError, s)
      | Some elementSet \<Rightarrow>
          (case ie_selector el of
             None \<Rightarrow> (ReadThrewTypeError, s)
           | Some selector \<Rightarrow>
               (ReadReturned (ie_value el),
                trackerRecord now href
                  \<lparr> ev_type = ''value-access'',
                    ev_fields = [(''element'', JStr (ie_tagName el)),
                                 (''name'', JStr (ie_name el)),
                                 (''selector'', JStr selector)] \<rparr> s)))"

text \<open>
  What happens in the page, in the order in which it happens: a click, a call of
  \<open>fetch\<close>, or a read of the \<open>value\<close> of an input element, each with the time
  and the page's URL at that moment.
\<close>

datatype page_event =
    Click int string click_target
  | Fetch int string string "string option" "string option"
  | ValueRead int string input_element

fun eventTime :: "page_event \<Rightarrow> int" where
  "eventTime (Click now href el) = now"
| "eventTime (Fetch now href url httpMethod reqBody) = now"
| "eventTime (ValueRead now href el) = now"

fun handlePageEvent :: "tracker \<Rightarrow> page_event \<Rightarrow> tracker" where
  "handlePageEvent s (Click now href el) = onClick now href el s"
| "handlePageEvent s (Fetch now href url httpMethod reqBody) = onFetch now href url httpMethod reqBody s"
| "handlePageEvent s (ValueRead now href el) = snd (onValueRead now href el s)"

definition runPage :: "page_event list \<Rightarrow> tracker \<Rightarrow> tracker" where
  "runPage evs s = foldl handlePageEvent s evs"

fun clickTimes :: "page_event list \<Rightarrow> int list" where
  "clickTimes [] = []"
| "clickTimes (Click now href el # evs) = now # clickTimes evs"
| "clickTimes (Fetch now href url httpMethod reqBody # evs) = clickTimes evs"
| "clickTimes (ValueRead now href el # evs) = clickTimes evs"

text \<open>Recording a list of events, each with its time and URL.\<close>

definition recordAll :: "(int \<times> string \<times> sus_event) list \<Rightarrow> tracker \<Rightarrow> tracker" where
  "recordAll xs s = foldl (\<lambda>s (now, href, event). trackerRecord now href event s) s xs"

section \<open>JavaScript numbers\<close>

text \<open>
  A JavaScript number is a double, and an arithmetic operation gives the exact result
  rounded to the nearest double, a tie going to the double whose significand is even.
  The doubles between \<open>2 ^ E\<close> and \<open>2 ^ (E + 1)\<close> are the multiples of
  \<open>2 ^ (E - 52)\<close>, for \<open>E\<close> from \<open>- 1022\<close> to 1023; below \<open>2 ^ (- 1022)\<close>
  they are the multiples of \<open>2 ^ (- 1074)\<close>. A number is modelled as the real that the
  double is. A result of magnitude \<open>2 ^ 1024\<close> or more stands for \<open>Infinity\<close> or
  \<open>-Infinity\<close>.
\<close>

definition pow2 :: "int \<Rightarrow> real" where
  "pow2 e = (if e \<ge> 0 then 2 ^ nat e else 1 / 2 ^ nat (- e))"

text \<open>
  The exponent \<open>E\<close> of a magnitude \<open>a\<close>, searched upwards from 0 when \<open>a \<ge> 1\<close>
  and downwards from \<open>- 1\<close> when \<open>a < 1\<close>, within the range of the exponents.
\<close>

function expUp :: "real \<Rightarrow> int \<Rightarrow> int" where
  "expUp a e = (if e \<ge> 1023 \<or> a < pow2 (e + 1) then e else expUp a (e + 1))"
  by pat_completeness auto
termination
  by (relation "measure (\<lambda>(a, e). nat (1023 - e))") auto

function expDown :: "real \<Rightarrow> int \<Rightarrow> int" where
  "expDown a e = (if e \<le> - 1022 \<or> pow2 e \<le> a then e else expDown a (e - 1))"
  by pat_completeness auto
termination
  by (relation "measure (\<lambda>(a, e). nat (e + 1022))") auto

declare expUp.simps [simp del] expDown.simps [simp del]

definition binadeExponent :: "real \<Rightarrow> int" where
  "binadeExponent x = (if \<bar>x\<bar> \<ge> 1 then expUp \<bar>x\<bar> 0 else expDown \<bar>x\<bar> (- 1))"

text \<open>Rounding to the nearest integer, a tie going to the even one.\<close>

definition roundHalfEven :: "real \<Rightarrow> int" where
  "roundHalfEven y =
     (let f = \<lfloor>y\<rfloor>; r = y - of_int f
      in if r < 1 / 2 then f else if r > 1 / 2 then f + 1 else if even f then f else f + 1)"

text \<open>Rounding an exact result to the nearest double.\<close>

definition roundToDouble :: "real \<Rightarrow> real" where
  "roundToDouble x =
     (if x = 0 then 0
      else (let u = pow2 (binadeExponent x - 52) in of_int (roundHalfEven (x / u)) * u))"

text \<open>
  A number as an operation gives it: a double, \<open>Infinity\<close>, \<open>-Infinity\<close> or
  \<open>NaN\<close>. The sign of a zero is not modelled: \<open>-0\<close> is \<open>Finite 0\<close>.
\<close>

datatype js_number = Finite real | PosInfinity | NegInfinity | NaN

definition toDouble :: "real \<Rightarrow> js_number" where
  "toDouble x =
     (let r = roundToDouble x
      in if r \<ge> 2 ^ 1024 then PosInfinity
         else if r \<le> - (2 ^ 1024) then NegInfinity
         else Finite r)"

text \<open>\<open>a - b\<close> on numbers.\<close>

definition jsMinus :: "js_number \<Rightarrow> js_number \<Rightarrow> js_number" where
  "jsMinus a b =
     (case (a, b) of
        (NaN, _) \<Rightarrow> NaN
      | (_, NaN) \<Rightarrow> NaN
      | (Finite x, Finite y) \<Rightarrow> toDouble (x - y)
      | (Finite x, PosInfinity) \<Rightarrow> NegInfinity
      | (Finite x, NegInfinity) \<Rightarrow> PosInfinity
      | (PosInfinity, PosInfinity) \<Rightarrow> NaN
      | (PosInfinity, _) \<Rightarrow> PosInfinity
      | (NegInfinity, NegInfinity) \<Rightarrow> NaN
      | (NegInfinity, _) \<Rightarrow> NegInfinity)"

text \<open>\<open>a / d\<close> for a divisor that is a double; a zero divisor is taken as \<open>+0\<close>.\<close>

definition jsDivide :: "js_number \<Rightarrow> real \<Rightarrow> js_number" where
  "jsDivide a d =
     (case a of
        NaN \<Rightarrow> NaN
      | Finite x \<Rightarrow>
          if d = 0 then (if x = 0 then NaN else if x > 0 then PosInfinity else NegInfinity)
          else toDouble (x / d)
      | PosInfinity \<Rightarrow> if d \<ge> 0 then PosInfinity else NegInfinity
      | NegInfinity \<Rightarrow> if d \<ge> 0 then NegInfinity else PosInfinity)"

text \<open>\<open>Math.max(0, a)\<close>\<close>

definition mathMax0 :: "js_number \<Rightarrow> js_number" where
  "mathMax0 a =
     (case a of
        NaN \<Rightarrow> NaN
      | Finite x \<Rightarrow> Finite (max 0 x)
      | PosInfinity \<Rightarrow> PosInfinity
      | NegInfinity \<Rightarrow> Finite 0)"

text \<open>
  The number that a string converts to. White space around the text is dropped (of the
  white space characters those with a code below 256); the empty text is 0. The text
  may be a hexadecimal, octal or binary integer with its prefix, or a decimal number: an
  optional sign, then \<open>Infinity\<close> or digits with an optional fraction and an optional
  exponent. Any other text is \<open>NaN\<close>. The value is rounded to the nearest double.
\<close>

definition isWhiteSpace :: "char \<Rightarrow> bool" where
  "isWhiteSpace c = ((of_char c :: nat) \<in> {9, 10, 11, 12, 13, 32, 160})"

definition trimWhiteSpace :: "string \<Rightarrow> string" where
  "trimWhiteSpace s = rev (dropWhile isWhiteSpace (rev (dropWhile isWhiteSpace s)))"

definition nonDecimalLiteral :: "string \<Rightarrow> int option" where
  "nonDecimalLiteral t =
     (case t of
        c0 # c1 # ds \<Rightarrow>
          if c0 \<noteq> CHR ''0'' then None
          else if c1 = CHR ''x'' \<or> c1 = CHR ''X'' then parseDigits 16 ds
          else if c1 = CHR ''o'' \<or> c1 = CHR ''O'' then parseDigits 8 ds
          else if c1 = CHR ''b'' \<or> c1 = CHR ''B'' then parseDigits 2 ds
          else None
      | _ \<Rightarrow> None)"

definition splitSign :: "string \<Rightarrow> bool \<times> string" where
  "splitSign t =
     (case t of
        [] \<Rightarrow> (False, [])
      | c # r \<Rightarrow>
          if c = CHR ''-'' then (True, r) else if c = CHR ''+'' then (False, r) else (False, t))"

text \<open>The exponent part of a decimal number; \<open>None\<close> if the text is not one.\<close>

definition exponentPart :: "string \<Rightarrow> int option" where
  "exponentPart t =
     (case t of
        [] \<Rightarrow> Some 0
      | c # r \<Rightarrow>
          if c = CHR ''e'' \<or> c = CHR ''E''
          then (case parseDigits 10 (snd (splitSign r)) of
                  Some n \<Rightarrow> Some (if fst (splitSign r) then - n else n)
                | None \<Rightarrow> None)
          else None)"

definition pow10 :: "int \<Rightarrow> real" where
  "pow10 e = (if e \<ge> 0 then 10 ^ nat e else 1 / 10 ^ nat (- e))"

definition strDecimalLiteral :: "string \<Rightarrow> js_number" where
  "strDecimalLiteral t =
     (let negative = fst (splitSign t); u = snd (splitSign t)
      in if u = ''Infinity'' then (if negative then NegInfinity else PosInfinity)
         else
           (let whole = takeWhile (isDigitOf 10) u;
                r1 = dropWhile (isDigitOf 10) u;
                hasDot = (r1 \<noteq> [] \<and> hd r1 = CHR ''.'');
                fraction = (if hasDot then takeWhile (isDigitOf 10) (tl r1) else []);
                r2 = (if hasDot then dropWhile (isDigitOf 10) (tl r1) else r1)
            in if whole = [] \<and> fraction = [] then NaN
               else (case exponentPart r2 of
                       None \<Rightarrow> NaN
                     | Some e \<Rightarrow>
                         toDouble
                           ((if negative then - 1 else 1) *
                            (of_int (digitsValue 10 whole) +
                             of_int (digitsValue 10 fraction) / 10 ^ length fraction) *
                            pow10 e))))"

definition stringToNumber :: "string \<Rightarrow> js_number" where
  "stringToNumber s =
     (let t = trimWhiteSpace s
      in if t = [] then Finite 0
         else (case nonDecimalLiteral t of
                 Some n \<Rightarrow> toDouble (of_int n)
               | None \<Rightarrow> strDecimalLiteral t))"

section \<open>The session replayer (src/replay.js)\<close>

text \<open>
  Reading a property. \<open>None\<close> is the \<open>TypeError\<close> that reading a property of
  \<open>null\<close> or \<open>undefined\<close> throws; a missing key reads as \<open>undefined\<close>. Only
  the keys \<open>events\<close>, \<open>timestamp\<close> and \<open>type\<close> are read, which no string,
  number, boolean or array has.
\<close>

fun getProp :: "js_value \<Rightarrow> string \<Rightarrow> js_value option" where
  "getProp JUndefined k = None"
| "getProp JNull k = None"
| "getProp (JObj kvs) k = (case map_of kvs k of Some v \<Rightarrow> Some v | None \<Rightarrow> Some JUndefined)"
| "getProp v k = Some JUndefined"

text \<open>\<open>event.timestamp\<close> of a truthy event.\<close>

definition timestampOf :: "js_value \<Rightarrow> js_value" where
  "timestampOf event = (case getProp event ''timestamp'' of Some v \<Rightarrow> v | None \<Rightarrow> JUndefined)"

text \<open>
  The number that arithmetic makes of a value. An array converts as the text of its
  elements joined by commas does: the empty array as the empty text, a one-element array
  as its element's text (that of \<open>null\<close> and \<open>undefined\<close> is empty), a longer one
  as a text with a comma, which is no number. An object converts as the text
  \<open>[object Object]\<close> (an object that has a key \<open>toString\<close> or \<open>valueOf\<close> of its
  own is not modelled).
\<close>

fun toNumber :: "js_value \<Rightarrow> js_number" where
  "toNumber JUndefined = NaN"
| "toNumber JNull = Finite 0"
| "toNumber (JBool b) = Finite (if b then 1 else 0)"
| "toNumber (JNum x) = Finite x"
| "toNumber (JStr s) = stringToNumber s"
| "toNumber (JObj kvs) = NaN"
| "toNumber (JArr []) = Finite 0"
| "toNumber (JArr [e]) =
     (case e of
        JUndefined \<Rightarrow> Finite 0
      | JNull \<Rightarrow> Finite 0
      | JBool b \<Rightarrow> NaN
      | JNum x \<Rightarrow> Finite x
      | JStr s \<Rightarrow> stringToNumber s
      | JArr ys \<Rightarrow> toNumber (JArr ys)
      | JObj kvs \<Rightarrow> NaN)"
| "toNumber (JArr (e # e' # es)) = NaN"

text \<open>
  \<open>Math.max(0, (nextEvent.timestamp - event.timestamp) / this.replaySpeed)\<close>
\<close>

definition replayDelay :: "js_value \<Rightarrow> js_value \<Rightarrow> real \<Rightarrow> js_number" where
  "replayDelay nextEvent event speed =
     mathMax0 (jsDivide (jsMinus (toNumber (timestampOf nextEvent))
                                 (toNumber (timestampOf event))) speed)"

text \<open>
  The replayer. Besides the fields of the class the state holds what the replayer does to
  its surroundings: \<open>dispatched\<close>, the events handed to \<open>replayEvent\<close>, in order;
  \<open>pending\<close>, the delays of the \<open>setTimeout\<close> callbacks that have not fired yet;
  \<open>scheduled\<close>, every delay ever passed to \<open>setTimeout\<close>; and
  \<open>completions\<close>, the number of calls of \<open>onReplayComplete\<close>. \<open>events\<close> is
  an array by its type, so the check \<open>!Array.isArray(this.events)\<close> of
  \<open>replayNext\<close> never fires.
\<close>

record replayer =
  sessionData :: js_value
  events :: "js_value list"
  isReplaying :: bool
  isPaused :: bool
  currentIndex :: nat
  replaySpeed :: real
  startTime :: "int option"
  dispatched :: "js_value list"
  pending :: "js_number list"
  scheduled :: "js_number list"
  completions :: nat

text \<open>
  The constructor; \<open>speed\<close> is \<open>options.speed\<close> (\<open>None\<close> when the key is
  absent): \<open>speed: options.speed || 1.0\<close>, then the spread \<open>...options\<close>.
\<close>

definition newReplayer :: "real option \<Rightarrow> replayer" where
  "newReplayer speed =
     \<lparr> sessionData = JNull, events = [], isReplaying = False, isPaused = False,
       currentIndex = 0,
       replaySpeed =
         (let d = (case speed of Some v \<Rightarrow> if v \<noteq> 0 then v else 1.0 | None \<Rightarrow> 1.0)
          in (case speed of Some v \<Rightarrow> v | None \<Rightarrow> d)),
       startTime = None, dispatched = [], pending = [], scheduled = [], completions = 0 \<rparr>"

text \<open>How a call of \<open>loadSession\<close> ends.\<close>

datatype load_outcome = Returned bool | ThrewTypeError

text \<open>
  \<open>loadSession(sessionData)\<close>. \<open>parse\<close> stands for \<open>JSON.parse\<close>, with
  \<open>None\<close> for the \<open>SyntaxError\<close> that the function catches. The read of
  \<open>sessionData.events\<close> is outside the \<open>try\<close>.
\<close>

definition isArray :: "js_value \<Rightarrow> bool" where
  "isArray v = (case v of JArr xs \<Rightarrow> True | _ \<Rightarrow> False)"

definition arrayItems :: "js_value \<Rightarrow> js_value list" where
  "arrayItems v = (case v of JArr xs \<Rightarrow> xs | _ \<Rightarrow> [])"

definition loadSession ::
  "(string \<Rightarrow> js_value option) \<Rightarrow> js_value \<Rightarrow> replayer \<Rightarrow> load_outcome \<times> replayer" where
  "loadSession parse data s =
     (if \<not> truthy data then (Returned False, s)
      else
        (case (case data of JStr text \<Rightarrow> parse text | v \<Rightarrow> Some v) of
           None \<Rightarrow> (Returned False, s)
         | Some d \<Rightarrow>
             (case getProp d ''events'' of
                None \<Rightarrow> (ThrewTypeError, s)
              | Some evs \<Rightarrow>
                  if \<not> truthy evs \<or> \<not> isArray evs then (Returned False, s)
                  else (Returned True,
                        s\<lparr> sessionData := d, events := arrayItems evs, currentIndex := 0 \<rparr>))))"

text \<open>\<open>onReplayComplete()\<close>\<close>

definition onReplayComplete :: "replayer \<Rightarrow> replayer" where
  "onReplayComplete s =
     s\<lparr> isReplaying := False, isPaused := False, completions := completions s + 1 \<rparr>"

text \<open>
  \<open>replayNext()\<close>. A falsy entry of \<open>events\<close> is skipped by the recursive call.
  After the dispatch the next callback is scheduled if \<open>nextEvent && event.timestamp\<close>
  holds; otherwise the replay is completed.
\<close>

function replayNext :: "replayer \<Rightarrow> replayer" where
  "replayNext s =
     (if \<not> isReplaying s \<or> isPaused s then s
      else if currentIndex s \<ge> length (events s) then onReplayComplete s
      else
        (let event = events s ! currentIndex s in
         if \<not> truthy event then replayNext (s\<lparr> currentIndex := currentIndex s + 1 \<rparr>)
         else
           (let s1 = s\<lparr> dispatched := dispatched s @ [event],
                        currentIndex := currentIndex s + 1 \<rparr>;
                nextEvent = (if currentIndex s1 < length (events s1)
                             then events s1 ! currentIndex s1 else JUndefined)
            in if truthy nextEvent \<and> truthy (timestampOf event)
               then (let delay = replayDelay nextEvent event (replaySpeed s1)
                     in s1\<lparr> pending := pending s1 @ [delay],
                            scheduled := scheduled s1 @ [delay] \<rparr>)
               else onReplayComplete s1)))"
  by pat_completeness auto
termination
  by (relation "measure (\<lambda>s. length (events s) - currentIndex s)") auto

declare replayNext.simps [simp del]

text \<open>
  \<open>startReplay(speed = null)\<close>, with \<open>Date.now()\<close> as an argument.
\<close>

definition startReplay :: "int \<Rightarrow> real option \<Rightarrow> replayer \<Rightarrow> replayer" where
  "startReplay now speed s =
     (if isReplaying s then s
      else if length (events s) = 0 then s
      else replayNext
             (s\<lparr> replaySpeed := (case speed of Some v \<Rightarrow> v | None \<Rightarrow> replaySpeed s),
                 isReplaying := True, isPaused := False, currentIndex := 0,
                 startTime := Some now \<rparr>))"

text \<open>\<open>stopReplay()\<close>. No timer is cleared.\<close>

definition stopReplay :: "replayer \<Rightarrow> replayer" where
  "stopReplay s = s\<lparr> isReplaying := False, isPaused := False, currentIndex := 0 \<rparr>"

text \<open>\<open>togglePause()\<close>\<close>

definition togglePause :: "replayer \<Rightarrow> replayer" where
  "togglePause s =
     (if \<not> isReplaying s then s
      else (let s1 = s\<lparr> isPaused := \<not> isPaused s \<rparr>
            in if \<not> isPaused s1 then replayNext s1 else s1))"

text \<open>
  The oldest pending \<open>setTimeout\<close> callback fires:
  \<open>if (this.isReplaying && !this.isPaused) this.replayNext()\<close>.
\<close>

definition fireTimer :: "replayer \<Rightarrow> replayer" where
  "fireTimer s =
     (case pending s of
        [] \<Rightarrow> s
      | d # ds \<Rightarrow>
          (let s1 = s\<lparr> pending := ds \<rparr>
           in if isReplaying s1 \<and> \<not> isPaused s1 then replayNext s1 else s1))"

text \<open>Letting the pending callbacks fire, at most \<open>n\<close> of them.\<close>

primrec runTimers :: "nat \<Rightarrow> replayer \<Rightarrow> replayer" where
  "runTimers 0 s = s"
| "runTimers (Suc n) s = (if pending s = [] then s else runTimers n (fireTimer s))"

text \<open>
  \<open>jumpToEvent(index)\<close>, and \<open>jumpToProgress(percentage)\<close> with its
  \<open>Math.floor((percentage / 100) * this.events.length)\<close>: the quotient is rounded to
  a double, and so is the product. The percentage is a double; a product of magnitude
  \<open>2 ^ 1024\<close> or more, \<open>Infinity\<close> in the code, is out of range in
  \<open>jumpToEvent\<close> like \<open>Infinity\<close>. The call of \<open>updateProgress\<close> only
  rewrites the progress display, which is no part of the state.
\<close>

definition jumpToEvent :: "int \<Rightarrow> replayer \<Rightarrow> replayer" where
  "jumpToEvent index s =
     (if index \<ge> 0 \<and> index < int (length (events s))
      then s\<lparr> currentIndex := nat index \<rparr> else s)"

definition jumpToProgress :: "real \<Rightarrow> replayer \<Rightarrow> replayer" where
  "jumpToProgress percentage s =
     jumpToEvent
       \<lfloor>roundToDouble (roundToDouble (percentage / 100) * real (length (events s)))\<rfloor> s"

section \<open>Starting and stopping the session recorder (src/record.js)\<close>

text \<open>The \<open>record...\<close> options; each is \<open>options.x !== false\<close>.\<close>

record recorder_flags =
  recordMouse :: bool
  recordKeyboard :: bool
  recordScroll :: bool
  recordResize :: bool
  recordNavigation :: bool
  recordFormInputs :: bool
  recordClicks :: bool

text \<open>
  An event as a listener hands it to \<open>recordEvent\<close>, and the record that
  \<open>recordEvent\<close> stores:
  \<open>{...event, sessionId, timestamp, url, timestampAbsolute}\<close>.
\<close>

record captured_event =
  ce_type :: string
  ce_fields :: "(string \<times> js_value) list"

record session_record =
  sr_event :: captured_event
  sr_sessionId :: string
  sr_timestamp :: int
  sr_url :: string
  sr_timestampAbsolute :: int

text \<open>
  The recorder and what it has installed in the page. \<open>listeners\<close> is the
  \<open>Map\<close> from event type to wrapped handler (a handler is identified by a number);
  \<open>documentListeners\<close> are the capture listeners registered on \<open>document\<close>;
  \<open>intervals\<close> holds, for every live \<open>setInterval\<close> of the URL poll, its
  variable \<open>currentUrl\<close>; \<open>observers\<close> counts the live
  \<open>MutationObserver\<close>s. The listeners on scrollable elements and the throttling
  \<open>setTimeout\<close>s are not modelled.
\<close>

record recorder =
  flags :: recorder_flags
  isRecording :: bool
  sessionId :: string
  sessionRecords :: "session_record list"
  recordingStart :: "int option"
  listeners :: "(string \<times> nat) list"
  documentListeners :: "(string \<times> nat) list"
  intervals :: "string list"
  observers :: nat
  nextHandler :: nat

definition newRecorder :: "recorder_flags \<Rightarrow> string \<Rightarrow> recorder" where
  "newRecorder fl sid =
     \<lparr> flags = fl, isRecording = False, sessionId = sid, sessionRecords = [],
       recordingStart = None, listeners = [], documentListeners = [], intervals = [],
       observers = 0, nextHandler = 0 \<rparr>"

text \<open>
  \<open>recordEvent(event)\<close>, with \<open>Date.now()\<close> and \<open>window.location.href\<close> as
  arguments: nothing is stored unless the recorder is recording.
\<close>

definition recordEvent :: "int \<Rightarrow> string \<Rightarrow> captured_event \<Rightarrow> recorder \<Rightarrow> recorder" where
  "recordEvent now href event r =
     (if \<not> isRecording r then r
      else r\<lparr> sessionRecords := sessionRecords r @
                 [\<lparr> sr_event = event, sr_sessionId = sessionId r,
                    sr_timestamp = now - (case recordingStart r of Some t \<Rightarrow> t | None \<Rightarrow> 0),
                    sr_url = href, sr_timestampAbsolute = now \<rparr>] \<rparr>)"

text \<open>
  \<open>addListener(eventType, handler)\<close>: the wrapped handler is registered on
  \<open>document\<close> and stored in the map.
\<close>

definition addListener :: "recorder \<Rightarrow> string \<Rightarrow> recorder" where
  "addListener r eventType =
     r\<lparr> documentListeners := documentListeners r @ [(eventType, nextHandler r)],
        listeners := mapSet eventType (nextHandler r) (listeners r),
        nextHandler := nextHandler r + 1 \<rparr>"

text \<open>
  The event types for which \<open>recordMouseEvents\<close>, \<open>recordKeyboardEvents\<close>,
  \<open>recordScrollEvents\<close>, \<open>recordResizeEvents\<close>, \<open>recordFormInputs\<close> and
  \<open>recordNavigationEvents\<close> call \<open>addListener\<close>, in this order.
\<close>

definition listenerTypes :: "recorder_flags \<Rightarrow> string list" where
  "listenerTypes fl =
     (if recordMouse fl
      then (if recordClicks fl
            then [''click'', ''dblclick'', ''contextmenu'', ''mousedown'', ''mouseup'']
            else []) @ [''mousemove'']
      else []) @
     (if recordKeyboard fl then [''keydown'', ''keyup''] else []) @
     (if recordScroll fl then [''scroll'', ''wheel''] else []) @
     (if recordResize fl then [''resize''] else []) @
     (if recordFormInputs fl then [''input'', ''submit'', ''focus'', ''blur''] else []) @
     (if recordNavigation fl then [''load'', ''beforeunload''] else [])"

text \<open>
  \<open>startRecording()\<close>, with \<open>Date.now()\<close>, the generated session id and
  \<open>window.location.href\<close> as arguments. \<open>recordScrollEvents\<close> also starts a
  \<open>MutationObserver\<close>, and \<open>recordNavigationEvents\<close> starts the URL poll with
  \<open>setInterval\<close>, without keeping its handle.
\<close>

definition startRecording :: "int \<Rightarrow> string \<Rightarrow> string \<Rightarrow> recorder \<Rightarrow> recorder" where
  "startRecording now sid href r =
     (if isRecording r then r
      else
        (let r1 = r\<lparr> isRecording := True, recordingStart := Some now, sessionId := sid,
                      sessionRecords := [] \<rparr>;
             r2 = foldl addListener r1 (listenerTypes (flags r));
             r3 = (if recordScroll (flags r) then r2\<lparr> observers := observers r2 + 1 \<rparr>
                   else r2)
         in if recordNavigation (flags r) then r3\<lparr> intervals := intervals r3 @ [href] \<rparr>
            else r3))"

text \<open>
  \<open>stopRecording()\<close>: the result is the returned array and the new state. Every
  entry of the map is removed from \<open>document\<close> and the map is cleared. Nothing else
  is undone. (\<open>records\<close> is an array by its type, so the repair of a missing
  array does nothing.)
\<close>

definition stopRecording :: "recorder \<Rightarrow> session_record list \<times> recorder" where
  "stopRecording r =
     (if \<not> isRecording r then ([], r)
      else (sessionRecords r,
            r\<lparr> isRecording := False,
               documentListeners :=
                 filter (\<lambda>l. l \<notin> set (listeners r)) (documentListeners r),
               listeners := [] \<rparr>))"

text \<open>
  An event of type \<open>eventType\<close> reaches \<open>document\<close>: every listener registered
  for the type runs its wrapped handler, \<open>if (this.isRecording) handler(event)\<close>.
  \<open>event\<close> is what the handler hands to \<open>recordEvent\<close>.
\<close>

definition documentEvent ::
  "int \<Rightarrow> string \<Rightarrow> string \<Rightarrow> captured_event \<Rightarrow> recorder \<Rightarrow> recorder" where
  "documentEvent now href eventType event r =
     foldl (\<lambda>r l. if isRecording r then recordEvent now href event r else r) r
       (filter (\<lambda>l. fst l = eventType) (documentListeners r))"

text \<open>
  One round of the URL poll: every live interval runs its callback, which records a
  \<open>url-change\<close> and updates its \<open>currentUrl\<close> when the URL has changed.
\<close>

fun pollIntervals ::
  "int \<Rightarrow> string \<Rightarrow> string list \<Rightarrow> recorder \<Rightarrow> string list \<times> recorder" where
  "pollIntervals now href [] r = ([], r)"
| "pollIntervals now href (currentUrl # rest) r =
     (if href \<noteq> currentUrl
      then (let r1 = recordEvent now href
                       \<lparr> ce_type = ''url-change'',
                         ce_fields = [(''from'', JStr currentUrl), (''to'', JStr href)] \<rparr> r;
                (rest', r2) = pollIntervals now href rest r1
            in (href # rest', r2))
      else (let (rest', r2) = pollIntervals now href rest r
            in (currentUrl # rest', r2)))"

definition urlPollTick :: "int \<Rightarrow> string \<Rightarrow> recorder \<Rightarrow> recorder" where
  "urlPollTick now href r =
     (let (ivs, r1) = pollIntervals now href (intervals r) r in r1\<lparr> intervals := ivs \<rparr>)"

section \<open>Facts about the string helpers\<close>

lemma str_includes_iff: "str_includes s p \<longleftrightarrow> (\<exists>pre suf. s = pre @ p @ suf)"
proof (induction s)
  case Nil
  then show ?case by auto
next
  case (Cons c cs)
  show ?case
  proof
    assume "str_includes (c # cs) p"
    then consider "prefix p (c # cs)" | "str_includes cs p" by auto
    then show "\<exists>pre suf. c # cs = pre @ p @ suf"
    proof cases
      case 1
      then obtain suf where "c # cs = p @ suf" by (auto simp: prefix_def)
      then have "c # cs = [] @ p @ suf" by simp
      then show ?thesis by blast
    next
      case 2
      with Cons.IH obtain pre suf where "cs = pre @ p @ suf" by blast
      then have "c # cs = (c # pre) @ p @ suf" by simp
      then show ?thesis by blast
    qed
  next
    assume "\<exists>pre suf. c # cs = pre @ p @ suf"
    then obtain pre suf where e: "c # cs = pre @ p @ suf" by blast
    show "str_includes (c # cs) p"
    proof (cases pre)
      case Nil
      with e have "prefix p (c # cs)" by (simp add: prefix_def)
      then show ?thesis by simp
    next
      case (Cons a pre')
      with e have "cs = pre' @ p @ suf" by simp
      with Cons.IH have "str_includes cs p" by blast
      then show ?thesis by simp
    qed
  qed
qed

lemma repeat_eq_iff: "repeat c n = v \<longleftrightarrow> length v = n \<and> set v \<subseteq> {c}"
proof
  assume "repeat c n = v"
  then show "length v = n \<and> set v \<subseteq> {c}" by (auto simp: repeat_def)
next
  assume "length v = n \<and> set v \<subseteq> {c}"
  then have a: "\<forall>y\<in>set v. y = c" and n: "length v = n" by auto
  from a have "replicate (length v) c = v" by (rule replicate_length_same)
  with n show "repeat c n = v" by (simp add: repeat_def)
qed

lemma length_repeat: "length (repeat c n) = n"
  by (simp add: repeat_def)

lemma str_includes_self: "str_includes s s"
  by (cases s) auto

lemma str_includes_empty: "str_includes s []"
  by (cases s) auto

section \<open>Masking: the stored value of a sensitive field\<close>

lemma shouldMask_iff:
  "shouldMask opts name \<longleftrightarrow>
     (\<exists>p\<in>set (maskPatterns opts). \<exists>pre suf. toLowerCase name = pre @ toLowerCase p @ suf)"
  by (simp add: shouldMask_def list_ex_iff str_includes_iff)

lemma marker_includes_iff:
  "str_includes (repeat c (min (length v) 8)) v \<longleftrightarrow> length v \<le> 8 \<and> set v \<subseteq> {c}"
proof
  assume "str_includes (repeat c (min (length v) 8)) v"
  then obtain pre suf where e: "repeat c (min (length v) 8) = pre @ v @ suf"
    by (auto simp: str_includes_iff)
  then have "length (pre @ v @ suf) = min (length v) 8"
    by (metis length_repeat)
  then have l: "length v \<le> 8" by simp
  from e have "set (pre @ v @ suf) \<subseteq> {c}"
    by (metis repeat_eq_iff)
  then have "set v \<subseteq> {c}" by auto
  with l show "length v \<le> 8 \<and> set v \<subseteq> {c}" by simp
next
  assume a: "length v \<le> 8 \<and> set v \<subseteq> {c}"
  then have "repeat c (min (length v) 8) = v"
    by (simp add: repeat_eq_iff min_def)
  then show "str_includes (repeat c (min (length v) 8)) v"
    by (simp add: str_includes_self)
qed

lemma masked_value_shape:
  assumes "maskSensitiveDataFlag opts" and "shouldMask opts name"
  shows "\<exists>m. maskSensitiveData opts v name = TextValue m
             \<and> length m \<le> 8 \<and> set m \<subseteq> {CHR ''*''}"
proof (cases v)
  case (TextValue s)
  with assms show ?thesis
    by (auto simp: maskSensitiveData_def markerLength_def repeat_def)
next
  case FileValue
  with assms show ?thesis
    by (simp add: maskSensitiveData_def markerLength_def repeat_def)
qed

lemma set_mapSet: "set (mapSet k v kvs) \<subseteq> insert (k, v) (set kvs)"
  by (induction kvs) (auto split: if_splits)

lemma set_insertIndexed: "set (insertIndexed n k v kvs) = insert (k, v) (set kvs)"
  by (induction kvs) (auto split: option.splits if_splits)

lemma set_objectSet: "set (objectSet k v kvs) \<subseteq> insert (k, v) (set kvs)"
proof -
  have "set (mapSet k v kvs) \<subseteq> insert (k, v) (set kvs)" by (rule set_mapSet)
  moreover have "set (insertIndexed n k v kvs) \<subseteq> insert (k, v) (set kvs)" for n
    by (simp add: set_insertIndexed)
  ultimately show ?thesis
    by (auto simp: objectSet_def split: option.splits)
qed

lemma submitFormData_entries:
  "(k, stored) \<in> set (submitFormData opts entries) \<Longrightarrow>
   \<exists>v. (k, v) \<in> set entries \<and> stored = maskSensitiveData opts v k"
proof (induction entries arbitrary: k stored rule: rev_induct)
  case Nil
  then show ?case by (simp add: submitFormData_def)
next
  case (snoc e entries)
  obtain key v where e: "e = (key, v)" by (cases e)
  have "submitFormData opts (entries @ [e])
      = objectSet key (maskSensitiveData opts v key) (submitFormData opts entries)"
    by (simp add: submitFormData_def e)
  with snoc.prems set_objectSet [of key "maskSensitiveData opts v key" "submitFormData opts entries"]
  consider "(k, stored) = (key, maskSensitiveData opts v key)"
    | "(k, stored) \<in> set (submitFormData opts entries)"
    by auto
  then show ?case
  proof cases
    case 1
    with e show ?thesis by auto
  next
    case 2
    from snoc.IH [OF this] show ?thesis by auto
  qed
qed

text \<open>
  Claim C1, as the code has it. When masking is switched on (the default) and the field
  name contains one of the configured patterns, case-insensitively, a non-empty string
  value is stored as \<open>min (length v) 8\<close> asterisks: by \<open>maskSensitiveData\<close>, by
  the \<open>input\<close> listener that stores its result, and by \<open>maskValue\<close> of the
  network tracker, for which the field is sensitive too. The marker contains the original value exactly when that value is
  itself made of at most 8 asterisks. In the payload of a \<open>submit\<close> event, whatever
  the form's entries are, the value stored under such a field name is made of at most
  8 asterisks.
\<close>

theorem masked_field_is_marker:
  assumes enabled: "maskSensitiveDataFlag opts"
    and sensitive: "\<exists>p\<in>set (maskPatterns opts). \<exists>pre suf.
                      toLowerCase name = pre @ toLowerCase p @ suf"
    and nonempty: "v \<noteq> []"
  shows "maskSensitiveData opts (TextValue v) name
           = TextValue (replicate (min (length v) 8) CHR ''*'')
       \<and> inputStoredValue opts v name otherId
           = TextValue (replicate (min (length v) 8) CHR ''*'')
       \<and> (str_includes (replicate (min (length v) 8) CHR ''*'') v
            \<longleftrightarrow> length v \<le> 8 \<and> set v \<subseteq> {CHR ''*''})
       \<and> (\<forall>stored. (name, stored) \<in> set (submitFormData opts entries) \<longrightarrow>
             (\<exists>m. stored = TextValue m \<and> length m \<le> 8 \<and> set m \<subseteq> {CHR ''*''}))
       \<and> isSensitiveField (maskPatterns opts) name
       \<and> maskValue v = replicate (min (length v) 8) CHR ''*''"
proof -
  from sensitive have sm: "shouldMask opts name" by (simp add: shouldMask_iff)
  then have sf: "isSensitiveField (maskPatterns opts) name"
    by (simp add: shouldMask_def isSensitiveField_def)
  from sm enabled nonempty have m: "maskSensitiveData opts (TextValue v) name
      = TextValue (replicate (min (length v) 8) CHR ''*'')"
    by (simp add: maskSensitiveData_def markerLength_def repeat_def)
  have i: "inputStoredValue opts v name otherId = maskSensitiveData opts (TextValue v) name"
  proof (cases "name = []")
    case False
    then show ?thesis by (simp add: inputStoredValue_def)
  next
    case True
    with sensitive obtain p where p: "p \<in> set (maskPatterns opts)" "toLowerCase p = []"
      by (auto simp: toLowerCase_def)
    then have "str_includes (toLowerCase otherId) (toLowerCase p)"
      by (simp add: str_includes_empty)
    with p have "shouldMask opts otherId"
      unfolding shouldMask_def list_ex_iff by blast
    with sm show ?thesis
      by (simp add: inputStoredValue_def maskSensitiveData_def)
  qed
  have c: "str_includes (replicate (min (length v) 8) CHR ''*'') v
            \<longleftrightarrow> length v \<le> 8 \<and> set v \<subseteq> {CHR ''*''}"
    using marker_includes_iff [of "CHR ''*''" v] by (simp add: repeat_def)
  have s: "\<forall>stored. (name, stored) \<in> set (submitFormData opts entries) \<longrightarrow>
             (\<exists>m. stored = TextValue m \<and> length m \<le> 8 \<and> set m \<subseteq> {CHR ''*''})"
  proof (intro allI impI)
    fix stored
    assume "(name, stored) \<in> set (submitFormData opts entries)"
    then obtain w where "stored = maskSensitiveData opts w name"
      using submitFormData_entries by blast
    with masked_value_shape [OF enabled sm, of w]
    show "\<exists>m. stored = TextValue m \<and> length m \<le> 8 \<and> set m \<subseteq> {CHR ''*''}" by simp
  qed
  have n: "maskValue v = replicate (min (length v) 8) CHR ''*''"
    using nonempty by (simp add: maskValue_def repeat_def)
  from m i c s sf n show ?thesis by simp
qed

text \<open>
  The scenario of the specification: \<open>password = "secret123"\<close> under the default
  options is stored as eight asterisks, which do not contain \<open>"secret123"\<close>.
\<close>

theorem masked_field_is_marker_witness:
  "inputStoredValue defaultRecorderOptions ''secret123'' ''password'' ''''
     = TextValue ''********''
   \<and> \<not> str_includes ''********'' ''secret123''"
proof -
  have e: "maskSensitiveDataFlag defaultRecorderOptions" by code_simp
  have "''password'' \<in> set (maskPatterns defaultRecorderOptions)" by code_simp
  moreover have "toLowerCase ''password'' = [] @ toLowerCase ''password'' @ []" by simp
  ultimately have s: "\<exists>p\<in>set (maskPatterns defaultRecorderOptions). \<exists>pre suf.
      toLowerCase ''password'' = pre @ toLowerCase p @ suf" by blast
  have n: "''secret123'' \<noteq> []" by simp
  from masked_field_is_marker [OF e s n, of "''''" "[]"]
  have "inputStoredValue defaultRecorderOptions ''secret123'' ''password'' ''''
          = TextValue (replicate (min (length ''secret123'') 8) CHR ''*'')"
    and "str_includes (replicate (min (length ''secret123'') 8) CHR ''*'') ''secret123''
          \<longleftrightarrow> length ''secret123'' \<le> 8 \<and> set ''secret123'' \<subseteq> {CHR ''*''}"
    by blast+
  moreover have "replicate (min (length ''secret123'') 8) CHR ''*'' = ''********''"
    by code_simp
  ultimately show ?thesis by simp
qed

text \<open>
  Claim C1 as it is stated fails on two inputs. A password made of asterisks is stored
  as it was typed, so the stored value contains the original; and with the option
  \<open>maskSensitiveData: false\<close> nothing is masked at all.
\<close>

theorem stored_value_contains_original_counterexample:
  "shouldMask defaultRecorderOptions ''password''
   \<and> inputStoredValue defaultRecorderOptions ''***'' ''password'' '''' = TextValue ''***''
   \<and> str_includes ''***'' ''***''
   \<and> maskSensitiveData
        (recorderOptions \<lparr> user_maskSensitiveData = Some False, user_maskPatterns = None \<rparr>)
        (TextValue ''secret123'') ''password'' = TextValue ''secret123''"
  by code_simp

section \<open>Masking is idempotent\<close>

text \<open>
  Claim C9. Masking a value twice under the same field name gives what masking it once
  gives, for every field name, sensitive or not, every value (a string or a
  \<open>File\<close>) and every configuration: the marker of a marker has the same length,
  and whether a field is masked depends on its name only.
\<close>

theorem maskSensitiveData_idempotent:
  "maskSensitiveData opts (maskSensitiveData opts v n) n = maskSensitiveData opts v n"
  by (cases v) (simp_all add: maskSensitiveData_def markerLength_def repeat_def)

theorem maskSensitiveData_idempotent_witness:
  "maskSensitiveData defaultRecorderOptions (TextValue ''secret123'') ''password''
     = TextValue ''********''
   \<and> maskSensitiveData defaultRecorderOptions (TextValue ''********'') ''password''
     = TextValue ''********''"
proof -
  have "maskSensitiveData defaultRecorderOptions (TextValue ''secret123'') ''password''
          = TextValue ''********''"
    by code_simp
  with maskSensitiveData_idempotent
    [of defaultRecorderOptions "TextValue ''secret123''" "''password''"]
  show ?thesis by simp
qed

section \<open>The selector of an element\<close>

lemma classTokens_empty: "classTokens [] = []"
  by (simp add: classTokens_def)

lemma walkParents_qualifiers:
  "stringClassNames p \<Longrightarrow>
   walkParents p d sel = Inr (prependQualifiers (ancestorQualifiers p d) sel)"
proof (induction p d sel rule: walkParents.induct)
  case (1 depth selector)
  then show ?case by (simp add: prependQualifiers_def)
next
  case (2 t i c isRoot par depth selector)
  from "2.prems" obtain cs where c: "c = ClassString cs" and p: "stringClassNames par"
    by (cases c) simp_all
  show ?case
  proof (cases "isRoot \<or> \<not> depth < 3 \<or> i \<noteq> []")
    case True
    then show ?thesis by (auto simp: prependQualifiers_def)
  next
    case False
    with "2.IH" [OF _ _ c p] c show ?thesis
      by (auto simp: prependQualifiers_def Let_def classTokens_empty classText_def)
  qed
qed

lemma length_ancestorQualifiers: "length (ancestorQualifiers p d) \<le> 3 - d"
proof (induction p d rule: ancestorQualifiers.induct)
  case (1 depth)
  then show ?case by simp
next
  case (2 t i c isRoot par depth)
  then show ?case by auto
qed

lemma ancestorQualifiers_id:
  "\<not> isDocumentElement a \<Longrightarrow> elemId a \<noteq> [] \<Longrightarrow> depth < 3 \<Longrightarrow>
   ancestorQualifiers (Some a) depth = [toLowerCase (tagName a) @ ''#'' @ elemId a]"
  by (cases a) simp

lemma baseSelector_qualifier:
  "stringClassNames (Some e) \<Longrightarrow> baseSelector e = Inr (elementQualifier e)"
  by (cases e; cases "className e")
    (simp_all add: baseSelector_def elementQualifier_def classText_def)

lemma stringClassNames_parent:
  "stringClassNames (Some e) \<Longrightarrow> stringClassNames (parentElement e)"
  by (cases e; cases "className e") simp_all

text \<open>
  An SVG element without an id is not resolved: the call of \<open>split\<close> on its class
  name throws.
\<close>

lemma getElementSelector_svg:
  "\<not> isDocumentElement e \<Longrightarrow> elemId e = [] \<Longrightarrow> className e = SVGAnimatedString \<Longrightarrow>
   getElementSelector (Some e) = Inl TypeError"
  by (simp add: getElementSelector_def baseSelector_def)

text \<open>
  Claim C5, as the code has it. \<open>null\<close> and the document element resolve to
  \<open>"html"\<close>. Every other element whose class name and whose ancestors' class names
  are strings resolves to its own qualifier (the lower-cased tag name, followed by
  \<open>#id\<close> if it has an id, else by its class tokens), with the qualifiers of its
  ancestors put in front, each followed by \<open>" > "\<close>. The ancestors are walked whether
  or not the element has an id; they contribute at most three qualifiers, and an
  ancestor with an id contributes \<open>tag#id\<close> and ends the walk.
\<close>

theorem getElementSelector_structure:
  "getElementSelector None = Inr ''html''
   \<and> (isDocumentElement e \<longrightarrow> getElementSelector (Some e) = Inr ''html'')
   \<and> (\<not> isDocumentElement e \<and> stringClassNames (Some e) \<longrightarrow>
        getElementSelector (Some e) =
          Inr (prependQualifiers (ancestorQualifiers (parentElement e) 0)
                 (elementQualifier e)))
   \<and> prefix (toLowerCase (tagName e)) (elementQualifier e)
   \<and> (elemId e \<noteq> [] \<longrightarrow> elementQualifier e = toLowerCase (tagName e) @ ''#'' @ elemId e)
   \<and> (elemId e = [] \<and> className e = ClassString c \<and> c \<noteq> [] \<longrightarrow>
        elementQualifier e = toLowerCase (tagName e) @ ''.'' @ joinWith ''.'' (classTokens c))
   \<and> length (ancestorQualifiers (parentElement e) 0) \<le> 3
   \<and> (\<not> isDocumentElement a \<and> elemId a \<noteq> [] \<and> depth < 3 \<longrightarrow>
        ancestorQualifiers (Some a) depth = [toLowerCase (tagName a) @ ''#'' @ elemId a])"
proof -
  have n: "getElementSelector None = Inr ''html''"
    by (simp add: getElementSelector_def)
  have r: "isDocumentElement e \<longrightarrow> getElementSelector (Some e) = Inr ''html''"
    by (simp add: getElementSelector_def)
  have w: "\<not> isDocumentElement e \<and> stringClassNames (Some e) \<longrightarrow>
        getElementSelector (Some e) =
          Inr (prependQualifiers (ancestorQualifiers (parentElement e) 0)
                 (elementQualifier e))"
    by (simp add: getElementSelector_def baseSelector_qualifier walkParents_qualifiers
        stringClassNames_parent)
  have b: "prefix (toLowerCase (tagName e)) (elementQualifier e)"
    by (simp add: elementQualifier_def)
  have bi: "elemId e \<noteq> [] \<longrightarrow> elementQualifier e = toLowerCase (tagName e) @ ''#'' @ elemId e"
    by (simp add: elementQualifier_def)
  have bc: "elemId e = [] \<and> className e = ClassString c \<and> c \<noteq> [] \<longrightarrow>
        elementQualifier e = toLowerCase (tagName e) @ ''.'' @ joinWith ''.'' (classTokens c)"
    by (simp add: elementQualifier_def classText_def)
  have l: "length (ancestorQualifiers (parentElement e) 0) \<le> 3"
    using length_ancestorQualifiers [of "parentElement e" 0] by simp
  have s: "\<not> isDocumentElement a \<and> elemId a \<noteq> [] \<and> depth < 3 \<longrightarrow>
        ancestorQualifiers (Some a) depth = [toLowerCase (tagName a) @ ''#'' @ elemId a]"
    by (simp add: ancestorQualifiers_id)
  from n r w b bi bc l s show ?thesis by blast
qed

text \<open>
  A \<open>span\<close> with two classes, in a \<open>div\<close> with three classes, in a \<open>section\<close>
  with neither id nor class, in \<open>main#app\<close>, in \<open>body\<close>, in the document element.
\<close>

theorem getElementSelector_structure_witness:
  "getElementSelector (Some (Element ''HTML'' [] (ClassString []) True None)) = Inr ''html''
   \<and> getElementSelector
        (Some (Element ''SPAN'' [] (ClassString ''a b'') False
          (Some (Element ''DIV'' [] (ClassString ''x  y z'') False
            (Some (Element ''SECTION'' [] (ClassString []) False
              (Some (Element ''MAIN'' ''app'' (ClassString ''wide'') False
                (Some (Element ''BODY'' [] (ClassString []) False
                  (Some (Element ''HTML'' [] (ClassString []) True None))))))))))))
       = Inr ''main#app > div.x.y > span.a.b''"
proof -
  define html where "html = Element ''HTML'' [] (ClassString []) True None"
  define mainEl where
    "mainEl = Element ''MAIN'' ''app'' (ClassString ''wide'') False
                (Some (Element ''BODY'' [] (ClassString []) False (Some html)))"
  define divEl where
    "divEl = Element ''DIV'' [] (ClassString ''x  y z'') False
               (Some (Element ''SECTION'' [] (ClassString []) False (Some mainEl)))"
  define spanEl where "spanEl = Element ''SPAN'' [] (ClassString ''a b'') False (Some divEl)"
  have q: "ancestorQualifiers (Some divEl) 0 = [''main#app'', ''div.x.y'']"
    unfolding divEl_def mainEl_def html_def by code_simp
  have b: "elementQualifier spanEl = ''span.a.b''"
    unfolding spanEl_def by code_simp
  have c: "stringClassNames (Some spanEl)"
    unfolding spanEl_def divEl_def mainEl_def html_def by simp
  have "getElementSelector (Some html) = Inr ''html''"
    using getElementSelector_structure [of html] by (simp add: html_def)
  moreover have "getElementSelector (Some spanEl) = Inr ''main#app > div.x.y > span.a.b''"
    using getElementSelector_structure [of spanEl "''a b''" mainEl 2] q b c
    by (simp add: spanEl_def prependQualifiers_def)
  ultimately show ?thesis
    by (simp add: spanEl_def divEl_def mainEl_def html_def)
qed

text \<open>
  Claim C5 as it is stated says that an element with an id ends the ascent. The code has
  no such exit: a \<open>button#go\<close> inside \<open>div#main\<close> resolves to
  \<open>"div#main > button#go"\<close>, not to \<open>"button#go"\<close>.
\<close>

theorem element_id_does_not_stop_ascent_counterexample:
  "elemId (Element ''BUTTON'' ''go'' (ClassString []) False
            (Some (Element ''DIV'' ''main'' (ClassString []) False
              (Some (Element ''HTML'' [] (ClassString []) True None))))) \<noteq> []
   \<and> getElementSelector
        (Some (Element ''BUTTON'' ''go'' (ClassString []) False
          (Some (Element ''DIV'' ''main'' (ClassString []) False
            (Some (Element ''HTML'' [] (ClassString []) True None))))))
       = Inr ''div#main > button#go''
   \<and> getElementSelector
        (Some (Element ''BUTTON'' ''go'' (ClassString []) False
          (Some (Element ''DIV'' ''main'' (ClassString []) False
            (Some (Element ''HTML'' [] (ClassString []) True None))))))
       \<noteq> Inr ''button#go''"
  by code_simp

section \<open>The suspicious-activity tracker: thresholding\<close>

lemma records_trackerRecord:
  "records (trackerRecord now href ev s) =
     records s @ [\<lparr> rec_event = ev, rec_timestamp = now, rec_url = href,
                    severity = calculateSeverity ev \<rparr>]"
  by (simp add: trackerRecord_def Let_def)

lemma threshold_trackerRecord:
  "suspiciousThreshold (trackerRecord now href ev s) = suspiciousThreshold s"
  by (simp add: trackerRecord_def Let_def)

lemma console_trackerRecord:
  "console (trackerRecord now href ev s) =
     console s @
       [let r = \<lparr> rec_event = ev, rec_timestamp = now, rec_url = href,
                   severity = calculateSeverity ev \<rparr>
        in if suspiciousThreshold s \<le> severity r then Suspicious r else Activity r]"
  by (simp add: trackerRecord_def Let_def)

lemma recordAll_snoc:
  "recordAll (xs @ [(now, href, ev)]) s = trackerRecord now href ev (recordAll xs s)"
  by (simp add: recordAll_def)

lemma threshold_recordAll:
  "suspiciousThreshold (recordAll xs s) = suspiciousThreshold s"
proof (induction xs rule: rev_induct)
  case Nil
  then show ?case by (simp add: recordAll_def)
next
  case (snoc x xs)
  obtain now href ev where x: "x = (now, href, ev)" by (cases x)
  show ?case unfolding x recordAll_snoc threshold_trackerRecord by (rule snoc.IH)
qed

lemma records_recordAll:
  "records (recordAll xs s) =
     records s @
       map (\<lambda>(now, href, ev). \<lparr> rec_event = ev, rec_timestamp = now, rec_url = href,
                                 severity = calculateSeverity ev \<rparr>) xs"
proof (induction xs rule: rev_induct)
  case Nil
  then show ?case by (simp add: recordAll_def)
next
  case (snoc x xs)
  obtain now href ev where x: "x = (now, href, ev)" by (cases x)
  show ?case unfolding x recordAll_snoc records_trackerRecord snoc.IH by simp
qed

lemma console_recordAll:
  "console (recordAll xs s) =
     console s @
       map (\<lambda>(now, href, ev).
              let r = \<lparr> rec_event = ev, rec_timestamp = now, rec_url = href,
                         severity = calculateSeverity ev \<rparr>
              in if suspiciousThreshold s \<le> severity r then Suspicious r else Activity r) xs"
proof (induction xs rule: rev_induct)
  case Nil
  then show ?case by (simp add: recordAll_def)
next
  case (snoc x xs)
  obtain now href ev where x: "x = (now, href, ev)" by (cases x)
  show ?case
    unfolding x recordAll_snoc console_trackerRecord snoc.IH threshold_recordAll by simp
qed

lemma trackerThreshold_Some: "trackerThreshold (Some t) = t"
  by (simp add: trackerThreshold_def)

text \<open>
  Claim C3. A tracker configured with the threshold \<open>t\<close> uses \<open>t\<close> itself (also
  \<open>t = 0\<close>; without the key it uses 0.8). After it has recorded the events \<open>xs\<close>,
  its records are these events in the order of recording, each with the severity that
  \<open>calculateSeverity\<close> gives it; the console line of a record is \<open>[SUSPICIOUS]\<close>
  if and only if its severity is at least \<open>t\<close>; and \<open>getSuspiciousRecords\<close> returns
  the records whose severity is at least \<open>t\<close>, and only them, in the order of
  recording.
\<close>

theorem severity_thresholding:
  "(let s = recordAll xs (newTracker (Some t)) in
      suspiciousThreshold s = t
    \<and> map rec_event (records s) = map (\<lambda>(now, href, ev). ev) xs
    \<and> (\<forall>r\<in>set (records s). severity r = calculateSeverity (rec_event r))
    \<and> console s = map (\<lambda>r. if t \<le> severity r then Suspicious r else Activity r) (records s)
    \<and> set (getSuspiciousRecords s) = {r \<in> set (records s). t \<le> severity r}
    \<and> subseq (getSuspiciousRecords s) (records s)
    \<and> map rec_event (getSuspiciousRecords s) =
        filter (\<lambda>ev. t \<le> calculateSeverity ev) (map (\<lambda>(now, href, ev). ev) xs))
   \<and> suspiciousThreshold (newTracker None) = 0.8"
proof -
  define s where "s = recordAll xs (newTracker (Some t))"
  define mk where
    "mk = (\<lambda>(now :: int, href :: string, ev :: sus_event).
             \<lparr> rec_event = ev, rec_timestamp = now, rec_url = href,
               severity = calculateSeverity ev \<rparr>)"
  have th: "suspiciousThreshold s = t"
    by (simp add: s_def threshold_recordAll newTracker_def trackerThreshold_Some)
  have recs: "records s = map mk xs"
    by (simp add: s_def mk_def records_recordAll newTracker_def)
  have evs: "map rec_event (records s) = map (\<lambda>(now, href, ev). ev) xs"
    by (simp add: recs mk_def case_prod_unfold comp_def)
  have sev: "\<forall>r\<in>set (records s). severity r = calculateSeverity (rec_event r)"
    by (auto simp: recs mk_def)
  have con: "console s = map (\<lambda>r. if t \<le> severity r then Suspicious r else Activity r) (records s)"
    by (simp add: s_def console_recordAll records_recordAll newTracker_def
        trackerThreshold_Some Let_def case_prod_unfold comp_def)
  have gs: "getSuspiciousRecords s = filter (\<lambda>r. t \<le> severity r) (records s)"
    by (simp add: getSuspiciousRecords_def th)
  have st: "set (getSuspiciousRecords s) = {r \<in> set (records s). t \<le> severity r}"
    by (simp add: gs)
  have sb: "subseq (getSuspiciousRecords s) (records s)"
    by (simp add: gs)
  have fl: "map rec_event (getSuspiciousRecords s) =
        filter (\<lambda>ev. t \<le> calculateSeverity ev) (map (\<lambda>(now, href, ev). ev) xs)"
    by (simp add: gs recs mk_def filter_map comp_def case_prod_unfold)
  have df: "suspiciousThreshold (newTracker None) = 0.8"
    by (simp add: newTracker_def trackerThreshold_def)
  from th evs sev con st sb fl df show ?thesis
    unfolding s_def [symmetric] Let_def by blast
qed

text \<open>
  With the threshold 0.8, of a \<open>hidden-click\<close> (0.7), an \<open>encoding-attempt\<close>
  (0.8) and a \<open>domain-mismatch\<close> (1.0) the last two are returned, in this order.
\<close>

theorem severity_thresholding_witness:
  "map rec_event
     (getSuspiciousRecords
        (recordAll [(10, ''u'', \<lparr> ev_type = ''hidden-click'', ev_fields = [] \<rparr>),
                    (20, ''u'', \<lparr> ev_type = ''encoding-attempt'', ev_fields = [] \<rparr>),
                    (30, ''u'', \<lparr> ev_type = ''domain-mismatch'', ev_fields = [] \<rparr>)]
           (newTracker (Some 0.8))))
   = [\<lparr> ev_type = ''encoding-attempt'', ev_fields = [] \<rparr>,
      \<lparr> ev_type = ''domain-mismatch'', ev_fields = [] \<rparr>]"
  using severity_thresholding
    [of "[(10, ''u'', \<lparr> ev_type = ''hidden-click'', ev_fields = [] \<rparr>),
          (20, ''u'', \<lparr> ev_type = ''encoding-attempt'', ev_fields = [] \<rparr>),
          (30, ''u'', \<lparr> ev_type = ''domain-mismatch'', ev_fields = [] \<rparr>)]" "0.8"]
  by (simp add: Let_def calculateSeverity_def)

section \<open>The suspicious-activity tracker: a network record and the last click\<close>

lemma lastClick_trackerRecord:
  "lastClick (trackerRecord now href ev s) = lastClick s"
  by (simp add: trackerRecord_def Let_def)

lemma lastClick_onClick: "lastClick (onClick now href el s) = Some now"
  by (simp add: onClick_def Let_def lastClick_trackerRecord)

lemma lastClick_onFetch: "lastClick (onFetch now href url httpMethod reqBody s) = lastClick s"
  by (simp add: onFetch_def Let_def lastClick_trackerRecord)

lemma lastClick_onValueRead: "lastClick (snd (onValueRead now href el s)) = lastClick s"
  by (simp add: onValueRead_def lastClick_trackerRecord split: option.splits)

lemma runPage_snoc: "runPage (evs @ [e]) s = handlePageEvent (runPage evs s) e"
  by (simp add: runPage_def)

lemma clickTimes_append: "clickTimes (xs @ ys) = clickTimes xs @ clickTimes ys"
  by (induction xs rule: clickTimes.induct) auto

lemma lastClick_runPage:
  "lastClick (runPage evs s) =
     (if clickTimes evs = [] then lastClick s else Some (last (clickTimes evs)))"
proof (induction evs rule: rev_induct)
  case Nil
  then show ?case by (simp add: runPage_def)
next
  case (snoc e evs)
  show ?case
  proof (cases e)
    case (Click now href el)
    then show ?thesis
      by (simp add: runPage_snoc lastClick_onClick clickTimes_append)
  next
    case (Fetch now href url httpMethod reqBody)
    then show ?thesis
      by (simp add: runPage_snoc lastClick_onFetch clickTimes_append snoc.IH)
  next
    case (ValueRead now href el)
    then show ?thesis
      by (simp add: runPage_snoc lastClick_onValueRead clickTimes_append snoc.IH)
  qed
qed

lemma clickTimes_subset: "set (clickTimes evs) \<subseteq> set (map eventTime evs)"
  by (induction evs rule: clickTimes.induct) auto

lemma sorted_clickTimes: "sorted (map eventTime evs) \<Longrightarrow> sorted (clickTimes evs)"
proof (induction evs rule: clickTimes.induct)
  case 1
  then show ?case by simp
next
  case (2 now href el evs)
  have "set (clickTimes evs) \<subseteq> set (map eventTime evs)" by (rule clickTimes_subset)
  with 2 show ?case by auto
next
  case (3 now href url httpMethod reqBody evs)
  then show ?case by simp
next
  case (4 now href el evs)
  then show ?case by simp
qed

lemma sorted_le_last: "sorted xs \<Longrightarrow> x \<in> set xs \<Longrightarrow> x \<le> last (xs :: int list)"
  by (induction xs) auto

text \<open>
  The flag itself is computed as intended. When the tracker starts with no click
  remembered and the page events happen in the order of their times, none later than
  \<open>now\<close>, the value of \<open>triggeredByClick\<close> at time \<open>now\<close> is \<open>true\<close> if and
  only if one of the clicks happened less than 1000 ms before \<open>now\<close>; it is
  \<open>null\<close> when there has been no click.
\<close>

lemma triggeredByClick_of_run:
  assumes fresh: "lastClick s = None"
    and ordered: "sorted (map eventTime evs @ [now])"
  shows "(triggeredByClick now (runPage evs s) = JBool True
            \<longleftrightarrow> (\<exists>t\<in>set (clickTimes evs). t \<le> now \<and> now - t < 1000))
       \<and> (triggeredByClick now (runPage evs s) = JNull \<longleftrightarrow> clickTimes evs = [])"
proof -
  define s' where "s' = runPage evs s"
  have lc: "lastClick s' =
      (if clickTimes evs = [] then None else Some (last (clickTimes evs)))"
    by (simp add: s'_def lastClick_runPage fresh)
  have nul: "triggeredByClick now s' = JNull \<longleftrightarrow> clickTimes evs = []"
    by (simp add: triggeredByClick_def lc)
  from ordered have so: "sorted (map eventTime evs)"
    and le: "\<forall>t\<in>set (map eventTime evs). t \<le> now"
    by (auto simp: sorted_append)
  from so have sc: "sorted (clickTimes evs)" by (rule sorted_clickTimes)
  have iff: "triggeredByClick now s' = JBool True
      \<longleftrightarrow> (\<exists>t\<in>set (clickTimes evs). t \<le> now \<and> now - t < 1000)"
  proof (cases "clickTimes evs = []")
    case True
    then show ?thesis by (simp add: triggeredByClick_def lc)
  next
    case False
    then have mem: "last (clickTimes evs) \<in> set (clickTimes evs)" by simp
    with clickTimes_subset [of evs] le have lnow: "last (clickTimes evs) \<le> now" by blast
    have "now - last (clickTimes evs) < 1000
        \<longleftrightarrow> (\<exists>t\<in>set (clickTimes evs). t \<le> now \<and> now - t < 1000)"
    proof
      assume "now - last (clickTimes evs) < 1000"
      with mem lnow show "\<exists>t\<in>set (clickTimes evs). t \<le> now \<and> now - t < 1000" by blast
    next
      assume "\<exists>t\<in>set (clickTimes evs). t \<le> now \<and> now - t < 1000"
      then obtain t where t: "t \<in> set (clickTimes evs)" "now - t < 1000" by blast
      from sc t(1) have "t \<le> last (clickTimes evs)" by (rule sorted_le_last)
      with t(2) show "now - last (clickTimes evs) < 1000" by simp
    qed
    with False show ?thesis by (simp add: triggeredByClick_def lc)
  qed
  from iff nul show ?thesis unfolding s'_def by blast
qed

section \<open>The suspicious-activity tracker: no network record is ever made\<close>

lemma accessedValues_trackerRecord:
  "accessedValues (trackerRecord now href ev s) = accessedValues s"
  by (simp add: trackerRecord_def Let_def)

lemma records_types_trackerRecord:
  "ev_type ` rec_event ` set (records (trackerRecord now href ev s))
     = insert (ev_type ev) (ev_type ` rec_event ` set (records s))"
  by (simp add: records_trackerRecord)

lemma no_network_record_step:
  assumes "accessedValues s = []"
    and "''sensitive-network'' \<notin> ev_type ` rec_event ` set (records s)"
  shows "accessedValues (handlePageEvent s e) = []
       \<and> ''sensitive-network'' \<notin> ev_type ` rec_event ` set (records (handlePageEvent s e))"
proof (cases e)
  case (Click now href el)
  with assms show ?thesis
    by (simp add: onClick_def Let_def accessedValues_trackerRecord
        records_types_trackerRecord)
next
  case (Fetch now href url httpMethod reqBody)
  with assms show ?thesis
    by (simp add: onFetch_def Let_def)
next
  case (ValueRead now href el)
  with assms show ?thesis
    by (simp add: onValueRead_def accessedValues_trackerRecord
        records_types_trackerRecord split: option.splits)
qed

text \<open>
  Claim C4 on the code. The set \<open>accessedValues\<close> of the tracker is empty after the
  constructor and stays empty whatever happens in the page, because the getter adds the
  value it reads to the input element (or throws), never to the tracker. So the wrapper
  around \<open>fetch\<close> never finds a sensitive value in a request body, and no
  \<open>sensitive-network\<close> record is made: not for a \<open>POST\<close> that carries a value
  read before, and not within 1000 ms of a click.
\<close>

theorem sensitive_network_never_recorded:
  "accessedValues (runPage evs (newTracker given)) = []
   \<and> (\<forall>r\<in>set (records (runPage evs (newTracker given))).
         ev_type (rec_event r) \<noteq> ''sensitive-network'')"
proof -
  have "accessedValues (runPage evs (newTracker given)) = []
      \<and> ''sensitive-network''
           \<notin> ev_type ` rec_event ` set (records (runPage evs (newTracker given)))"
  proof (induction evs rule: rev_induct)
    case Nil
    then show ?case by (simp add: runPage_def newTracker_def)
  next
    case (snoc e evs)
    then show ?case
      unfolding runPage_snoc by (intro no_network_record_step) simp_all
  qed
  then have a: "accessedValues (runPage evs (newTracker given)) = []"
    and n: "''sensitive-network''
           \<notin> ev_type ` rec_event ` set (records (runPage evs (newTracker given)))"
    by simp_all
  have "ev_type (rec_event r) \<noteq> ''sensitive-network''"
    if "r \<in> set (records (runPage evs (newTracker given)))" for r
  proof
    assume e: "ev_type (rec_event r) = ''sensitive-network''"
    from that have "ev_type (rec_event r)
        \<in> ev_type ` rec_event ` set (records (runPage evs (newTracker given)))"
      by (intro imageI)
    with e n show False by simp
  qed
  with a show ?thesis by blast
qed

text \<open>
  A password field is read, a button is clicked at time 100, and at time 600 the
  password is sent by a \<open>POST\<close>: the read throws, and the tracker has no record at all.
\<close>

theorem sensitive_network_never_recorded_witness:
  "(let field = \<lparr> ie_value = ''secret'', ie_tagName = ''INPUT'', ie_name = ''password'',
                  ie_accessedValues = None, ie_selector = None \<rparr>;
        button = \<lparr> ct_tagName = ''BUTTON'', ct_selector = ''button'', ct_opacity = ''1'',
                   ct_visibility = ''visible'', ct_zIndex = ''auto'',
                   ct_zIndexParsed = None, ct_inIframe = False \<rparr>;
        s = runPage [ValueRead 50 ''u'' field, Click 100 ''u'' button,
                     Fetch 600 ''u'' ''https://x.test/api'' (Some ''POST'')
                       (Some ''pw=secret'')]
              (newTracker None)
    in fst (onValueRead 50 ''u'' field (newTracker None)) = ReadThrewTypeError
     \<and> lastClick s = Some 100
     \<and> triggeredByClick 600 s = JBool True
     \<and> accessedValues s = []
     \<and> records s = [])"
proof -
  define field where
    "field = \<lparr> ie_value = ''secret'', ie_tagName = ''INPUT'', ie_name = ''password'',
               ie_accessedValues = None, ie_selector = None \<rparr>"
  define button where
    "button = \<lparr> ct_tagName = ''BUTTON'', ct_selector = ''button'', ct_opacity = ''1'',
                ct_visibility = ''visible'', ct_zIndex = ''auto'',
                ct_zIndexParsed = None, ct_inIframe = False \<rparr>"
  define evs where
    "evs = [ValueRead 50 ''u'' field, Click 100 ''u'' button,
            Fetch 600 ''u'' ''https://x.test/api'' (Some ''POST'') (Some ''pw=secret'')]"
  have a: "accessedValues (runPage evs (newTracker None)) = []"
    using sensitive_network_never_recorded [of evs None] by simp
  have t: "fst (onValueRead 50 ''u'' field (newTracker None)) = ReadThrewTypeError"
    by (simp add: onValueRead_def field_def)
  have r: "runPage evs (newTracker None) = (newTracker None)\<lparr> lastClick := Some 100 \<rparr>"
    by (simp add: evs_def runPage_def onValueRead_def field_def onClick_def button_def
        onFetch_def newTracker_def Let_def)
  from a t r show ?thesis
    unfolding Let_def field_def [symmetric] button_def [symmetric] evs_def [symmetric]
    by (simp add: triggeredByClick_def newTracker_def)
qed

section \<open>The session replayer: loading a session\<close>

lemma loadSession_falsy:
  "\<not> truthy data \<Longrightarrow> loadSession parse data s = (Returned False, s)"
  by (simp add: loadSession_def)

lemma loadSession_unparsable:
  "text \<noteq> [] \<Longrightarrow> parse text = None \<Longrightarrow>
   loadSession parse (JStr text) s = (Returned False, s)"
  by (simp add: loadSession_def)

lemma loadSession_no_events_array:
  assumes "truthy d" and "\<forall>text. d \<noteq> JStr text"
    and "getProp d ''events'' = Some evs" and "\<not> isArray evs"
  shows "loadSession parse d s = (Returned False, s)"
  using assms by (cases d) (auto simp: loadSession_def)

lemma loadSession_parsed_no_events_array:
  assumes "text \<noteq> []" and "parse text = Some d"
    and "getProp d ''events'' = Some evs" and "\<not> isArray evs"
  shows "loadSession parse (JStr text) s = (Returned False, s)"
  using assms by (simp add: loadSession_def)

lemma loadSession_not_success_keeps_state:
  "fst (loadSession parse data s) \<noteq> Returned True \<Longrightarrow> snd (loadSession parse data s) = s"
  by (auto simp: loadSession_def split: option.splits if_splits)

lemma loadSession_success:
  assumes "fst (loadSession parse data s) = Returned True"
  shows "\<exists>d evs. (data = d \<or> (\<exists>text. data = JStr text \<and> parse text = Some d))
           \<and> getProp d ''events'' = Some (JArr evs)
           \<and> snd (loadSession parse data s)
               = s\<lparr> sessionData := d, events := evs, currentIndex := 0 \<rparr>"
proof -
  from assms obtain d where d: "(case data of JStr text \<Rightarrow> parse text | v \<Rightarrow> Some v) = Some d"
    by (auto simp: loadSession_def split: option.splits if_splits)
  from assms d obtain v where v: "getProp d ''events'' = Some v" "isArray v"
    by (auto simp: loadSession_def split: option.splits if_splits)
  then obtain evs where e: "v = JArr evs" by (cases v) (auto simp: isArray_def)
  from d have "data = d \<or> (\<exists>text. data = JStr text \<and> parse text = Some d)"
    by (cases data) auto
  moreover from assms d v e have "snd (loadSession parse data s)
               = s\<lparr> sessionData := d, events := evs, currentIndex := 0 \<rparr>"
    by (auto simp: loadSession_def arrayItems_def split: if_splits)
  ultimately show ?thesis using v e by blast
qed

text \<open>
  Claim C6 at the text \<open>null\<close>. The text is not empty and \<open>JSON.parse\<close> accepts it,
  so the value \<open>null\<close> reaches the read of \<open>sessionData.events\<close>, which throws:
  \<open>loadSession\<close> does not return a failure result. The state is unchanged.
\<close>

theorem loadSession_null_text_throws:
  "parse ''null'' = Some JNull \<Longrightarrow>
   loadSession parse (JStr ''null'') s = (ThrewTypeError, s)"
  by (simp add: loadSession_def)

theorem loadSession_null_text_throws_witness:
  "loadSession (\<lambda>text. if text = ''null'' then Some JNull else None) (JStr ''null'')
     (newReplayer None)
   = (ThrewTypeError, newReplayer None)"
proof -
  have "(\<lambda>text. if text = ''null'' then Some JNull else None) ''null'' = Some JNull"
    by simp
  then show ?thesis by (rule loadSession_null_text_throws)
qed

section \<open>The session replayer: jumping\<close>

lemma progress_50_of_10: "\<lfloor>roundToDouble (roundToDouble (50 / 100) * real (10 :: nat))\<rfloor> = 5"
  by code_simp

lemma progress_29_of_100:
  "\<lfloor>roundToDouble (roundToDouble (29 / 100) * real (100 :: nat))\<rfloor> = 28"
  by code_simp

lemma progress_100_of_10:
  "\<lfloor>roundToDouble (roundToDouble (100 / 100) * real (10 :: nat))\<rfloor> = 10"
  by code_simp

text \<open>
  The product is rounded as the code rounds it: \<open>jumpToProgress(29)\<close> on a session of
  100 events sets \<open>currentIndex\<close> to 28, not to 29.
\<close>

lemma jumpToProgress_29_of_100:
  "length (events s) = 100 \<Longrightarrow> currentIndex (jumpToProgress 29 s) = 28"
  using progress_29_of_100 by (simp add: jumpToProgress_def jumpToEvent_def)

lemma jumpToEvent_in_range:
  "currentIndex s < length (events s) \<Longrightarrow> currentIndex (jumpToEvent i s) < length (events s)"
  by (auto simp: jumpToEvent_def)

text \<open>
  Claim C7, as the code has it. \<open>jumpToEvent(index)\<close> sets \<open>currentIndex\<close> to an
  index that lies in \<open>[0, length)\<close> and ignores any other index; it changes nothing
  else, so it neither resumes nor schedules anything. \<open>jumpToProgress(percentage)\<close> is
  \<open>jumpToEvent\<close> at \<open>Math.floor((percentage / 100) * length)\<close>, the quotient and
  the product each rounded to a double. A \<open>currentIndex\<close> that lies in
  \<open>[0, length)\<close> stays there under both, and \<open>jumpToProgress(50)\<close> on a session
  of 10 events sets \<open>currentIndex\<close> to 5.
\<close>

theorem jump_sets_index_in_range:
  "(0 \<le> i \<and> i < int (length (events s)) \<longrightarrow> jumpToEvent i s = s\<lparr> currentIndex := nat i \<rparr>)
   \<and> (\<not> (0 \<le> i \<and> i < int (length (events s))) \<longrightarrow> jumpToEvent i s = s)
   \<and> jumpToProgress p s =
       jumpToEvent \<lfloor>roundToDouble (roundToDouble (p / 100) * real (length (events s)))\<rfloor> s
   \<and> (currentIndex s < length (events s) \<longrightarrow>
        currentIndex (jumpToEvent i s) < length (events s)
        \<and> currentIndex (jumpToProgress p s) < length (events s))
   \<and> (length (events s) = 10 \<longrightarrow> currentIndex (jumpToProgress 50 s) = 5)
   \<and> jumpToEvent i s = s\<lparr> currentIndex := currentIndex (jumpToEvent i s) \<rparr>
   \<and> jumpToProgress p s = s\<lparr> currentIndex := currentIndex (jumpToProgress p s) \<rparr>"
proof -
  have a: "0 \<le> i \<and> i < int (length (events s)) \<longrightarrow> jumpToEvent i s = s\<lparr> currentIndex := nat i \<rparr>"
    by (simp add: jumpToEvent_def)
  have b: "\<not> (0 \<le> i \<and> i < int (length (events s))) \<longrightarrow> jumpToEvent i s = s"
    by (simp add: jumpToEvent_def)
  have c: "jumpToProgress p s =
       jumpToEvent \<lfloor>roundToDouble (roundToDouble (p / 100) * real (length (events s)))\<rfloor> s"
    by (simp add: jumpToProgress_def)
  have d: "currentIndex s < length (events s) \<longrightarrow>
        currentIndex (jumpToEvent i s) < length (events s)
        \<and> currentIndex (jumpToProgress p s) < length (events s)"
    by (simp add: jumpToProgress_def jumpToEvent_in_range)
  have e: "length (events s) = 10 \<longrightarrow> currentIndex (jumpToProgress 50 s) = 5"
    using progress_50_of_10 by (simp add: jumpToProgress_def jumpToEvent_def)
  have f: "jumpToEvent i s = s\<lparr> currentIndex := currentIndex (jumpToEvent i s) \<rparr>"
    by (simp add: jumpToEvent_def)
  have g: "jumpToProgress p s = s\<lparr> currentIndex := currentIndex (jumpToProgress p s) \<rparr>"
    by (simp add: jumpToProgress_def jumpToEvent_def)
  from a b c d e f g show ?thesis by blast
qed

text \<open>A session of 10 events: \<open>jumpToProgress(50)\<close> and \<open>jumpToEvent(7)\<close>.\<close>

theorem jump_sets_index_in_range_witness:
  "currentIndex (jumpToProgress 50 ((newReplayer None)\<lparr> events := replicate 10 (JObj []) \<rparr>)) = 5
   \<and> currentIndex (jumpToEvent 7 ((newReplayer None)\<lparr> events := replicate 10 (JObj []) \<rparr>)) = 7"
proof -
  define s where "s = (newReplayer None)\<lparr> events := replicate 10 (JObj []) \<rparr>"
  have l: "length (events s) = 10" by (simp add: s_def)
  then have r: "0 \<le> (7 :: int) \<and> 7 < int (length (events s))" by simp
  from jump_sets_index_in_range [of 7 s 50] l
  have "currentIndex (jumpToProgress 50 s) = 5" by blast
  moreover from jump_sets_index_in_range [of 7 s 50] r
  have "jumpToEvent 7 s = s\<lparr> currentIndex := nat 7 \<rparr>" by blast
  then have "currentIndex (jumpToEvent 7 s) = 7" by simp
  ultimately show ?thesis unfolding s_def by simp
qed

text \<open>
  Claim C7 as it is stated says that a position out of range is clamped. On a session of
  10 events with \<open>currentIndex = 3\<close>, \<open>jumpToEvent(15)\<close>, \<open>jumpToEvent(-1)\<close> and
  \<open>jumpToProgress(100)\<close> leave \<open>currentIndex\<close> at 3; clamping would give 9, 0
  and 9.
\<close>

theorem jump_out_of_range_is_ignored_counterexample:
  "currentIndex (jumpToEvent 15
     ((newReplayer None)\<lparr> events := replicate 10 (JObj []), currentIndex := 3 \<rparr>)) = 3
   \<and> currentIndex (jumpToEvent (- 1)
     ((newReplayer None)\<lparr> events := replicate 10 (JObj []), currentIndex := 3 \<rparr>)) = 3
   \<and> currentIndex (jumpToProgress 100
     ((newReplayer None)\<lparr> events := replicate 10 (JObj []), currentIndex := 3 \<rparr>)) = 3
   \<and> max 0 (min (15 :: int) (10 - 1)) = 9"
  using progress_100_of_10 by (simp add: jumpToProgress_def jumpToEvent_def)

section \<open>The session replayer: one step of the replay\<close>

lemma events_replayNext: "events (replayNext s) = events s"
proof (induction s rule: replayNext.induct)
  case (1 s)
  show ?case
  proof (cases "\<not> isReplaying s \<or> isPaused s \<or> currentIndex s \<ge> length (events s)")
    case True
    then show ?thesis
      by (subst replayNext.simps) (auto simp: onReplayComplete_def)
  next
    case False
    show ?thesis
    proof (cases "truthy (events s ! currentIndex s)")
      case True
      with False show ?thesis
        by (subst replayNext.simps) (simp add: onReplayComplete_def Let_def)
    next
      case f: False
      with False 1 have "events (replayNext (s\<lparr> currentIndex := currentIndex s + 1 \<rparr>))
          = events s" by simp
      with False f show ?thesis
        by (subst replayNext.simps) (simp add: Let_def)
    qed
  qed
qed

lemma dispatched_replayNext:
  "isReplaying s \<Longrightarrow> \<not> isPaused s \<Longrightarrow>
   dispatched (replayNext s)
     = dispatched s @ take 1 (filter truthy (drop (currentIndex s) (events s)))"
proof (induction s rule: replayNext.induct)
  case (1 s)
  show ?case
  proof (cases "currentIndex s \<ge> length (events s)")
    case True
    with 1(2,3) show ?thesis
      by (subst replayNext.simps) (simp add: onReplayComplete_def)
  next
    case False
    then have d: "drop (currentIndex s) (events s)
        = events s ! currentIndex s # drop (Suc (currentIndex s)) (events s)"
      by (simp add: Cons_nth_drop_Suc)
    show ?thesis
    proof (cases "truthy (events s ! currentIndex s)")
      case True
      with False 1(2,3) d show ?thesis
        by (subst replayNext.simps) (simp add: onReplayComplete_def Let_def)
    next
      case f: False
      with False 1 have "dispatched (replayNext (s\<lparr> currentIndex := currentIndex s + 1 \<rparr>))
          = dispatched s @ take 1 (filter truthy (drop (Suc (currentIndex s)) (events s)))"
        by simp
      with False f 1(2,3) d show ?thesis
        by (subst replayNext.simps) (simp add: Let_def)
    qed
  qed
qed

section \<open>The session replayer: starting again\<close>

lemma startReplay_unfold:
  "\<not> isReplaying s \<Longrightarrow> events s \<noteq> [] \<Longrightarrow>
   startReplay now speed s =
     replayNext
       (s\<lparr> replaySpeed := (case speed of Some v \<Rightarrow> v | None \<Rightarrow> replaySpeed s),
           isReplaying := True, isPaused := False, currentIndex := 0,
           startTime := Some now \<rparr>)"
  by (simp add: startReplay_def)

lemma startReplay_forgets_index:
  "\<not> isReplaying s \<Longrightarrow> events s \<noteq> [] \<Longrightarrow>
   startReplay now speed (s\<lparr> currentIndex := k \<rparr>) = startReplay now speed s"
  by (cases speed) (simp_all add: startReplay_def)

lemma dispatched_startReplay:
  assumes "\<not> isReplaying s" and "events s \<noteq> []"
  shows "dispatched (startReplay now speed s)
           = dispatched s @ take 1 (filter truthy (events s))"
proof -
  define s0 where
    "s0 = s\<lparr> replaySpeed := (case speed of Some v \<Rightarrow> v | None \<Rightarrow> replaySpeed s),
              isReplaying := True, isPaused := False, currentIndex := 0,
              startTime := Some now \<rparr>"
  have "isReplaying s0" and "\<not> isPaused s0" by (simp_all add: s0_def)
  then have "dispatched (replayNext s0)
      = dispatched s0 @ take 1 (filter truthy (drop (currentIndex s0) (events s0)))"
    by (rule dispatched_replayNext)
  moreover have "startReplay now speed s = replayNext s0"
    using assms by (simp add: startReplay_unfold s0_def)
  ultimately show ?thesis by (simp add: s0_def)
qed

text \<open>
  Claim C10. For a replayer \<open>s\<close> that is not replaying and has events loaded,
  \<open>startReplay\<close> gives the same result whatever \<open>currentIndex\<close> was, so a
  position set before by \<open>jumpToEvent\<close> or \<open>jumpToProgress\<close> is discarded; the
  one event that the call dispatches is the first stored event (the first one that is
  not a falsy entry). \<open>stopReplay\<close>, in whatever state \<open>r\<close> it is called, keeps
  the session data and the events and leaves the replayer not replaying, so
  \<open>startReplay\<close> after it starts from index 0 again, without a reload.
\<close>

theorem startReplay_resets_position:
  assumes idle: "\<not> isReplaying s" and loaded: "events s \<noteq> []"
  shows "startReplay now speed (jumpToEvent i s) = startReplay now speed s
       \<and> startReplay now speed (jumpToProgress p s) = startReplay now speed s
       \<and> startReplay now speed s =
           replayNext
             (s\<lparr> replaySpeed := (case speed of Some v \<Rightarrow> v | None \<Rightarrow> replaySpeed s),
                 isReplaying := True, isPaused := False, currentIndex := 0,
                 startTime := Some now \<rparr>)
       \<and> dispatched (startReplay now speed s)
           = dispatched s @ take 1 (filter truthy (events s))
       \<and> events (startReplay now speed s) = events s
       \<and> events (stopReplay r) = events r
       \<and> sessionData (stopReplay r) = sessionData r
       \<and> \<not> isReplaying (stopReplay r)
       \<and> currentIndex (stopReplay r) = 0
       \<and> (events r \<noteq> [] \<longrightarrow>
            dispatched (startReplay now speed (stopReplay r))
              = dispatched r @ take 1 (filter truthy (events r)))"
proof -
  have je: "jumpToEvent i s = s\<lparr> currentIndex := currentIndex (jumpToEvent i s) \<rparr>"
    by (simp add: jumpToEvent_def)
  have jp: "jumpToProgress p s = s\<lparr> currentIndex := currentIndex (jumpToProgress p s) \<rparr>"
    by (simp add: jumpToProgress_def jumpToEvent_def)
  have a: "startReplay now speed (jumpToEvent i s) = startReplay now speed s"
    by (subst je) (rule startReplay_forgets_index [OF idle loaded])
  have b: "startReplay now speed (jumpToProgress p s) = startReplay now speed s"
    by (subst jp) (rule startReplay_forgets_index [OF idle loaded])
  note c = startReplay_unfold [OF idle loaded, of now speed]
  note d = dispatched_startReplay [OF idle loaded, of now speed]
  have e: "events (startReplay now speed s) = events s"
    by (simp add: c events_replayNext)
  have f: "events (stopReplay r) = events r" "sessionData (stopReplay r) = sessionData r"
    "\<not> isReplaying (stopReplay r)" "currentIndex (stopReplay r) = 0"
    "dispatched (stopReplay r) = dispatched r"
    by (simp_all add: stopReplay_def)
  have g: "events r \<noteq> [] \<longrightarrow>
            dispatched (startReplay now speed (stopReplay r))
              = dispatched r @ take 1 (filter truthy (events r))"
  proof
    assume "events r \<noteq> []"
    with f have "dispatched (startReplay now speed (stopReplay r))
        = dispatched (stopReplay r) @ take 1 (filter truthy (events (stopReplay r)))"
      by (intro dispatched_startReplay) simp_all
    with f show "dispatched (startReplay now speed (stopReplay r))
        = dispatched r @ take 1 (filter truthy (events r))" by simp
  qed
  from a b c d e f(1-4) g show ?thesis by blast
qed

text \<open>
  Three events are loaded, the position is moved to the last one, and the replay is
  started: the event dispatched is the first one. The replay is then stopped and
  started again: the first event is dispatched once more.
\<close>

theorem startReplay_resets_position_witness:
  "(let s = (newReplayer None)
              \<lparr> events := [JObj [(''timestamp'', JNum 10)], JObj [(''timestamp'', JNum 20)],
                            JObj [(''timestamp'', JNum 30)]] \<rparr>;
        r = startReplay 0 None (jumpToEvent 2 s)
    in dispatched r = [JObj [(''timestamp'', JNum 10)]]
     \<and> dispatched (startReplay 5 None (stopReplay r))
         = [JObj [(''timestamp'', JNum 10)], JObj [(''timestamp'', JNum 10)]])"
proof -
  define s where
    "s = (newReplayer None)
           \<lparr> events := [JObj [(''timestamp'', JNum 10)], JObj [(''timestamp'', JNum 20)],
                         JObj [(''timestamp'', JNum 30)]] \<rparr>"
  define r where "r = startReplay 0 None (jumpToEvent 2 s)"
  have i: "\<not> isReplaying s" by (simp add: s_def newReplayer_def)
  have l: "events s \<noteq> []" by (simp add: s_def)
  from startReplay_resets_position [OF i l, of 0 None 2 0 r]
  have j: "startReplay 0 None (jumpToEvent 2 s) = startReplay 0 None s"
    and d: "dispatched (startReplay 0 None s)
          = dispatched s @ take 1 (filter truthy (events s))"
    and e: "events (startReplay 0 None s) = events s"
    by blast+
  from j d have dr: "dispatched r = [JObj [(''timestamp'', JNum 10)]]"
    by (simp add: r_def s_def newReplayer_def)
  from j e have er: "events r = events s" by (simp add: r_def)
  with l have "events r \<noteq> []" by simp
  with startReplay_resets_position [OF i l, of 5 None 2 0 r]
  have "dispatched (startReplay 5 None (stopReplay r))
          = dispatched r @ take 1 (filter truthy (events r))"
    by blast
  with dr er have "dispatched (startReplay 5 None (stopReplay r))
      = [JObj [(''timestamp'', JNum 10)], JObj [(''timestamp'', JNum 10)]]"
    by (simp add: s_def)
  with dr show ?thesis
    unfolding Let_def s_def [symmetric] r_def [symmetric] by simp
qed

section \<open>The session replayer: a replay that ends early\<close>

text \<open>
  Claim C2 on a session whose first event has a falsy timestamp, such as the timestamp 0
  of an event recorded in the millisecond in which the recording started. The replay is
  started. The first event is dispatched; then \<open>event.timestamp\<close> is falsy, so no
  callback is scheduled and the replay is completed with \<open>currentIndex = 1\<close>,
  however many events follow: none of them is dispatched.
\<close>

theorem replay_ends_after_falsy_timestamp:
  assumes idle: "\<not> isReplaying s"
    and evs: "events s = e0 # rest"
    and ev: "truthy e0"
    and ts: "\<not> truthy (timestampOf e0)"
  shows "dispatched (startReplay now speed s) = dispatched s @ [e0]
       \<and> pending (startReplay now speed s) = pending s
       \<and> scheduled (startReplay now speed s) = scheduled s
       \<and> currentIndex (startReplay now speed s) = 1
       \<and> \<not> isReplaying (startReplay now speed s)
       \<and> completions (startReplay now speed s) = completions s + 1
       \<and> events (startReplay now speed s) = e0 # rest"
proof -
  define s0 where
    "s0 = s\<lparr> replaySpeed := (case speed of Some v \<Rightarrow> v | None \<Rightarrow> replaySpeed s),
              isReplaying := True, isPaused := False, currentIndex := 0,
              startTime := Some now \<rparr>"
  from idle evs have st: "startReplay now speed s = replayNext s0"
    by (simp add: startReplay_def s0_def)
  have "replayNext s0 =
      onReplayComplete (s0\<lparr> dispatched := dispatched s0 @ [e0], currentIndex := 1 \<rparr>)"
    using evs ev ts by (subst replayNext.simps) (simp add: s0_def Let_def)
  with st evs show ?thesis
    by (simp add: onReplayComplete_def s0_def)
qed

text \<open>
  Two events with the timestamps 0 and 100 are loaded and replayed, and the pending
  callbacks are left to fire: the second event is never dispatched.
\<close>

theorem replay_ends_after_falsy_timestamp_witness:
  "(let e0 = JObj [(''type'', JStr ''click''), (''timestamp'', JNum 0)];
        e1 = JObj [(''type'', JStr ''click''), (''timestamp'', JNum 100)];
        loaded = loadSession (\<lambda>text. None) (JObj [(''events'', JArr [e0, e1])])
                   (newReplayer None);
        s = runTimers 2 (startReplay 0 None (snd loaded))
    in fst loaded = Returned True
     \<and> events s = [e0, e1]
     \<and> dispatched s = [e0]
     \<and> scheduled s = []
     \<and> pending s = []
     \<and> currentIndex s = 1
     \<and> \<not> isReplaying s
     \<and> completions s = 1)"
proof -
  define e0 where "e0 = JObj [(''type'', JStr ''click''), (''timestamp'', JNum 0)]"
  define e1 where "e1 = JObj [(''type'', JStr ''click''), (''timestamp'', JNum 100)]"
  define loaded where
    "loaded = loadSession (\<lambda>text. None) (JObj [(''events'', JArr [e0, e1])]) (newReplayer None)"
  have l: "loaded = (Returned True, (newReplayer None)
       \<lparr> sessionData := JObj [(''events'', JArr [e0, e1])], events := [e0, e1],
         currentIndex := 0 \<rparr>)"
    by (simp add: loaded_def loadSession_def isArray_def arrayItems_def)
  have i: "\<not> isReplaying (snd loaded)" by (simp add: l newReplayer_def)
  have e: "events (snd loaded) = e0 # [e1]" by (simp add: l)
  have t: "truthy e0" by (simp add: e0_def)
  have z: "\<not> truthy (timestampOf e0)" by (simp add: e0_def timestampOf_def)
  note r = replay_ends_after_falsy_timestamp [OF i e t z, of 0 None]
  from r have p: "pending (startReplay 0 None (snd loaded)) = []"
    by (simp add: l newReplayer_def)
  then have "runTimers 2 (startReplay 0 None (snd loaded)) = startReplay 0 None (snd loaded)"
    by (simp add: numeral_2_eq_2)
  with r l show ?thesis
    unfolding Let_def e0_def [symmetric] e1_def [symmetric] loaded_def [symmetric]
    by (simp add: newReplayer_def)
qed

section \<open>The session replayer: a replay that runs to the end\<close>

text \<open>
  When every stored event is truthy and every event but the last has a truthy
  timestamp, a replay that is left alone dispatches the events from \<open>currentIndex\<close>
  on in stored order, schedules the delay of the formula between two events, and
  completes once, after the last event.
\<close>

lemma runTimers_quiescent: "pending s = [] \<Longrightarrow> runTimers n s = s"
  by (cases n) simp_all

lemma replayNext_step_last:
  assumes "isReplaying s" and "\<not> isPaused s"
    and "Suc (currentIndex s) = length (events s)"
    and "truthy (events s ! currentIndex s)"
  shows "replayNext s =
           onReplayComplete
             (s\<lparr> dispatched := dispatched s @ [events s ! currentIndex s],
                 currentIndex := Suc (currentIndex s) \<rparr>)"
  using assms by (subst replayNext.simps) (simp add: Let_def)

lemma replayNext_step_more:
  assumes "isReplaying s" and "\<not> isPaused s"
    and "Suc (currentIndex s) < length (events s)"
    and "truthy (events s ! currentIndex s)"
    and "truthy (events s ! Suc (currentIndex s))"
    and "truthy (timestampOf (events s ! currentIndex s))"
  shows "replayNext s =
           s\<lparr> dispatched := dispatched s @ [events s ! currentIndex s],
              currentIndex := Suc (currentIndex s),
              pending := pending s @
                [replayDelay (events s ! Suc (currentIndex s)) (events s ! currentIndex s)
                   (replaySpeed s)],
              scheduled := scheduled s @
                [replayDelay (events s ! Suc (currentIndex s)) (events s ! currentIndex s)
                   (replaySpeed s)] \<rparr>"
  using assms by (subst replayNext.simps) (simp add: Let_def)

lemma replay_runs_to_end:
  assumes "n = length (events s) - currentIndex s"
    and "currentIndex s < length (events s)"
    and "\<forall>e\<in>set (events s). truthy e"
    and "\<forall>i. Suc i < length (events s) \<longrightarrow> truthy (timestampOf (events s ! i))"
    and "isReplaying s" and "\<not> isPaused s" and "pending s = []"
  shows "dispatched (runTimers n (replayNext s))
           = dispatched s @ drop (currentIndex s) (events s)
       \<and> scheduled (runTimers n (replayNext s))
           = scheduled s @
               map (\<lambda>i. replayDelay (events s ! Suc i) (events s ! i) (replaySpeed s))
                 [currentIndex s ..< length (events s) - 1]
       \<and> pending (runTimers n (replayNext s)) = []
       \<and> currentIndex (runTimers n (replayNext s)) = length (events s)
       \<and> \<not> isReplaying (runTimers n (replayNext s))
       \<and> completions (runTimers n (replayNext s)) = completions s + 1
       \<and> events (runTimers n (replayNext s)) = events s"
  using assms
proof (induction n arbitrary: s)
  case 0
  then show ?case by simp
next
  case (Suc m)
  let ?k = "currentIndex s"
  from Suc.prems have cur: "truthy (events s ! ?k)" by simp
  show ?case
  proof (cases "Suc ?k = length (events s)")
    case True
    from Suc.prems(5,6) True cur have r: "replayNext s =
        onReplayComplete (s\<lparr> dispatched := dispatched s @ [events s ! ?k],
                              currentIndex := Suc ?k \<rparr>)"
      by (rule replayNext_step_last)
    have p: "pending (replayNext s) = []"
      using Suc.prems(7) by (simp add: r onReplayComplete_def)
    from True have d: "drop ?k (events s) = [events s ! ?k]"
      by (metis Cons_nth_drop_Suc Suc.prems(2) drop_all order_refl)
    from True have u: "[?k ..< length (events s) - 1] = []" by simp
    show ?thesis
      unfolding runTimers_quiescent [OF p] d u
      using True Suc.prems(7) by (simp add: r onReplayComplete_def)
  next
    case False
    with Suc.prems(2) have lt: "Suc ?k < length (events s)" by simp
    with Suc.prems(3,4) have nx: "truthy (events s ! Suc ?k)"
      and ts: "truthy (timestampOf (events s ! ?k))" by simp_all
    define d where "d = replayDelay (events s ! Suc ?k) (events s ! ?k) (replaySpeed s)"
    define s3 where
      "s3 = s\<lparr> dispatched := dispatched s @ [events s ! ?k], currentIndex := Suc ?k,
                scheduled := scheduled s @ [d], pending := [] \<rparr>"
    from Suc.prems(5,6) lt cur nx ts have r: "replayNext s =
        s\<lparr> dispatched := dispatched s @ [events s ! ?k], currentIndex := Suc ?k,
           pending := pending s @ [d], scheduled := scheduled s @ [d] \<rparr>"
      unfolding d_def by (rule replayNext_step_more)
    have f: "fireTimer (replayNext s) = replayNext s3"
      using Suc.prems(5,6,7) by (simp add: r fireTimer_def s3_def)
    have pn: "pending (replayNext s) \<noteq> []" by (simp add: r)
    then have rt: "runTimers (Suc m) (replayNext s) = runTimers m (replayNext s3)"
      by (simp add: f)
    have e3: "events s3 = events s" "currentIndex s3 = Suc ?k" "replaySpeed s3 = replaySpeed s"
      "dispatched s3 = dispatched s @ [events s ! ?k]" "scheduled s3 = scheduled s @ [d]"
      "completions s3 = completions s"
      by (simp_all add: s3_def)
    have ih: "dispatched (runTimers m (replayNext s3))
           = dispatched s3 @ drop (currentIndex s3) (events s3)
       \<and> scheduled (runTimers m (replayNext s3))
           = scheduled s3 @
               map (\<lambda>i. replayDelay (events s3 ! Suc i) (events s3 ! i) (replaySpeed s3))
                 [currentIndex s3 ..< length (events s3) - 1]
       \<and> pending (runTimers m (replayNext s3)) = []
       \<and> currentIndex (runTimers m (replayNext s3)) = length (events s3)
       \<and> \<not> isReplaying (runTimers m (replayNext s3))
       \<and> completions (runTimers m (replayNext s3)) = completions s3 + 1
       \<and> events (runTimers m (replayNext s3)) = events s3"
    proof (rule Suc.IH)
      show "m = length (events s3) - currentIndex s3"
        using Suc.prems(1) by (simp add: e3)
      show "currentIndex s3 < length (events s3)" using lt by (simp add: e3)
      show "\<forall>e\<in>set (events s3). truthy e" using Suc.prems(3) by (simp add: e3)
      show "\<forall>i. Suc i < length (events s3) \<longrightarrow> truthy (timestampOf (events s3 ! i))"
        using Suc.prems(4) by (simp add: e3)
      show "isReplaying s3" using Suc.prems(5) by (simp add: s3_def)
      show "\<not> isPaused s3" using Suc.prems(6) by (simp add: s3_def)
      show "pending s3 = []" using Suc.prems(7) by (simp add: s3_def)
    qed
    from Suc.prems(2) have dr: "drop ?k (events s) = events s ! ?k # drop (Suc ?k) (events s)"
      by (simp add: Cons_nth_drop_Suc)
    from lt have up: "[?k ..< length (events s) - 1] = ?k # [Suc ?k ..< length (events s) - 1]"
      by (simp add: upt_conv_Cons)
    from ih show ?thesis
      unfolding rt e3 dr up by (simp add: d_def)
  qed
qed

lemma startReplay_dispatches_all:
  assumes idle: "\<not> isReplaying s" and loaded: "events s \<noteq> []"
    and ok: "\<forall>e\<in>set (events s). truthy e"
    and ts: "\<forall>i. Suc i < length (events s) \<longrightarrow> truthy (timestampOf (events s ! i))"
    and quiet: "pending s = []"
  shows "dispatched (runTimers (length (events s)) (startReplay now speed s))
           = dispatched s @ events s
       \<and> scheduled (runTimers (length (events s)) (startReplay now speed s))
           = scheduled s @
               map (\<lambda>i. replayDelay (events s ! Suc i) (events s ! i)
                            (case speed of Some v \<Rightarrow> v | None \<Rightarrow> replaySpeed s))
                 [0 ..< length (events s) - 1]
       \<and> pending (runTimers (length (events s)) (startReplay now speed s)) = []
       \<and> currentIndex (runTimers (length (events s)) (startReplay now speed s))
           = length (events s)
       \<and> \<not> isReplaying (runTimers (length (events s)) (startReplay now speed s))
       \<and> completions (runTimers (length (events s)) (startReplay now speed s))
           = completions s + 1"
proof -
  define s0 where
    "s0 = s\<lparr> replaySpeed := (case speed of Some v \<Rightarrow> v | None \<Rightarrow> replaySpeed s),
              isReplaying := True, isPaused := False, currentIndex := 0,
              startTime := Some now \<rparr>"
  have st: "startReplay now speed s = replayNext s0"
    using idle loaded by (simp add: startReplay_def s0_def)
  have f: "events s0 = events s" "currentIndex s0 = 0" "dispatched s0 = dispatched s"
    "scheduled s0 = scheduled s" "completions s0 = completions s"
    "replaySpeed s0 = (case speed of Some v \<Rightarrow> v | None \<Rightarrow> replaySpeed s)"
    by (simp_all add: s0_def)
  have "dispatched (runTimers (length (events s)) (replayNext s0))
           = dispatched s0 @ drop (currentIndex s0) (events s0)
       \<and> scheduled (runTimers (length (events s)) (replayNext s0))
           = scheduled s0 @
               map (\<lambda>i. replayDelay (events s0 ! Suc i) (events s0 ! i) (replaySpeed s0))
                 [currentIndex s0 ..< length (events s0) - 1]
       \<and> pending (runTimers (length (events s)) (replayNext s0)) = []
       \<and> currentIndex (runTimers (length (events s)) (replayNext s0)) = length (events s0)
       \<and> \<not> isReplaying (runTimers (length (events s)) (replayNext s0))
       \<and> completions (runTimers (length (events s)) (replayNext s0)) = completions s0 + 1
       \<and> events (runTimers (length (events s)) (replayNext s0)) = events s0"
  proof (rule replay_runs_to_end)
    show "length (events s) = length (events s0) - currentIndex s0" by (simp add: f)
    show "currentIndex s0 < length (events s0)" using loaded by (simp add: f)
    show "\<forall>e\<in>set (events s0). truthy e" using ok by (simp add: f)
    show "\<forall>i. Suc i < length (events s0) \<longrightarrow> truthy (timestampOf (events s0 ! i))"
      using ts by (simp add: f)
    show "isReplaying s0" "\<not> isPaused s0" by (simp_all add: s0_def)
    show "pending s0 = []" using quiet by (simp add: s0_def)
  qed
  then show ?thesis unfolding st f by simp
qed

section \<open>Starting and stopping the session recorder\<close>

lemma recordEvent_idle: "\<not> isRecording r \<Longrightarrow> recordEvent now href event r = r"
  by (simp add: recordEvent_def)

lemma pollIntervals_idle:
  "\<not> isRecording r \<Longrightarrow> snd (pollIntervals now href ivs r) = r"
  by (induction ivs) (auto simp: recordEvent_idle Let_def split: prod.splits)

lemma urlPollTick_idle:
  assumes "\<not> isRecording r"
  shows "sessionRecords (urlPollTick now href r) = sessionRecords r"
proof -
  obtain ivs r1 where p: "pollIntervals now href (intervals r) r = (ivs, r1)"
    by (cases "pollIntervals now href (intervals r) r")
  with pollIntervals_idle [OF assms, of now href "intervals r"] have "r1 = r" by simp
  with p show ?thesis by (simp add: urlPollTick_def)
qed

lemma documentEvent_idle:
  assumes "\<not> isRecording r"
  shows "documentEvent now href eventType event r = r"
proof -
  have "foldl (\<lambda>r l. if isRecording r then recordEvent now href event r else r) r ls = r"
    for ls :: "(string \<times> nat) list"
    using assms by (induction ls) simp_all
  then show ?thesis by (simp add: documentEvent_def)
qed

lemma mapSet_fresh: "k \<notin> fst ` set kvs \<Longrightarrow> mapSet k v kvs = kvs @ [(k, v)]"
  by (induction kvs) auto

lemma distinct_listenerTypes: "distinct (listenerTypes fl)"
  by (cases "recordMouse fl"; cases "recordClicks fl"; cases "recordKeyboard fl";
      cases "recordScroll fl"; cases "recordResize fl"; cases "recordFormInputs fl";
      cases "recordNavigation fl"; simp add: listenerTypes_def)

lemma foldl_addListener:
  assumes "distinct tys" and "set tys \<inter> fst ` set (listeners r) = {}"
  shows "\<exists>new. map fst new = tys
           \<and> documentListeners (foldl addListener r tys) = documentListeners r @ new
           \<and> listeners (foldl addListener r tys) = listeners r @ new
           \<and> isRecording (foldl addListener r tys) = isRecording r
           \<and> sessionRecords (foldl addListener r tys) = sessionRecords r
           \<and> sessionId (foldl addListener r tys) = sessionId r
           \<and> recordingStart (foldl addListener r tys) = recordingStart r
           \<and> intervals (foldl addListener r tys) = intervals r
           \<and> observers (foldl addListener r tys) = observers r
           \<and> flags (foldl addListener r tys) = flags r"
  using assms
proof (induction tys arbitrary: r)
  case Nil
  then show ?case by simp
next
  case (Cons ty tys)
  define r1 where "r1 = addListener r ty"
  from Cons.prems have fresh: "ty \<notin> fst ` set (listeners r)" by auto
  then have l1: "listeners r1 = listeners r @ [(ty, nextHandler r)]"
    by (simp add: r1_def addListener_def mapSet_fresh)
  have d1: "documentListeners r1 = documentListeners r @ [(ty, nextHandler r)]"
    by (simp add: r1_def addListener_def)
  have o1: "isRecording r1 = isRecording r" "sessionRecords r1 = sessionRecords r"
    "sessionId r1 = sessionId r" "recordingStart r1 = recordingStart r"
    "intervals r1 = intervals r" "observers r1 = observers r" "flags r1 = flags r"
    by (simp_all add: r1_def addListener_def)
  from Cons.prems l1 have "distinct tys" and "set tys \<inter> fst ` set (listeners r1) = {}"
    by auto
  from Cons.IH [OF this] obtain new where n: "map fst new = tys"
    "documentListeners (foldl addListener r1 tys) = documentListeners r1 @ new"
    "listeners (foldl addListener r1 tys) = listeners r1 @ new"
    "isRecording (foldl addListener r1 tys) = isRecording r1"
    "sessionRecords (foldl addListener r1 tys) = sessionRecords r1"
    "sessionId (foldl addListener r1 tys) = sessionId r1"
    "recordingStart (foldl addListener r1 tys) = recordingStart r1"
    "intervals (foldl addListener r1 tys) = intervals r1"
    "observers (foldl addListener r1 tys) = observers r1"
    "flags (foldl addListener r1 tys) = flags r1"
    by blast
  have f: "foldl addListener r (ty # tys) = foldl addListener r1 tys"
    by (simp add: r1_def)
  have "map fst ((ty, nextHandler r) # new) = ty # tys" using n(1) by simp
  moreover have "documentListeners (foldl addListener r (ty # tys))
      = documentListeners r @ (ty, nextHandler r) # new"
    by (simp only: f n(2) d1) simp
  moreover have "listeners (foldl addListener r (ty # tys))
      = listeners r @ (ty, nextHandler r) # new"
    by (simp only: f n(3) l1) simp
  moreover have "isRecording (foldl addListener r (ty # tys)) = isRecording r"
    "sessionRecords (foldl addListener r (ty # tys)) = sessionRecords r"
    "sessionId (foldl addListener r (ty # tys)) = sessionId r"
    "recordingStart (foldl addListener r (ty # tys)) = recordingStart r"
    "intervals (foldl addListener r (ty # tys)) = intervals r"
    "observers (foldl addListener r (ty # tys)) = observers r"
    "flags (foldl addListener r (ty # tys)) = flags r"
    by (simp_all only: f n(4-10) o1)
  ultimately show ?case
    by (intro exI [where x = "(ty, nextHandler r) # new"]) simp
qed

lemma startRecording_clean:
  assumes idle: "\<not> isRecording r" and nol: "listeners r = []"
    and nod: "documentListeners r = []"
  shows "isRecording (startRecording now sid href r)
       \<and> sessionRecords (startRecording now sid href r) = []
       \<and> sessionId (startRecording now sid href r) = sid
       \<and> recordingStart (startRecording now sid href r) = Some now
       \<and> map fst (documentListeners (startRecording now sid href r)) = listenerTypes (flags r)
       \<and> documentListeners (startRecording now sid href r)
           = listeners (startRecording now sid href r)"
proof -
  define r1 where
    "r1 = r\<lparr> isRecording := True, recordingStart := Some now, sessionId := sid,
              sessionRecords := [] \<rparr>"
  have "set (listenerTypes (flags r)) \<inter> fst ` set (listeners r1) = {}"
    by (simp add: r1_def nol)
  from foldl_addListener [OF distinct_listenerTypes this]
  obtain new where n: "map fst new = listenerTypes (flags r)"
    "documentListeners (foldl addListener r1 (listenerTypes (flags r)))
       = documentListeners r1 @ new"
    "listeners (foldl addListener r1 (listenerTypes (flags r))) = listeners r1 @ new"
    "isRecording (foldl addListener r1 (listenerTypes (flags r))) = isRecording r1"
    "sessionRecords (foldl addListener r1 (listenerTypes (flags r))) = sessionRecords r1"
    "sessionId (foldl addListener r1 (listenerTypes (flags r))) = sessionId r1"
    "recordingStart (foldl addListener r1 (listenerTypes (flags r))) = recordingStart r1"
    by blast
  from idle show ?thesis
    unfolding startRecording_def Let_def r1_def [symmetric]
    by (simp add: n) (simp add: r1_def nol nod)
qed

text \<open>
  What \<open>stopRecording\<close> does undo. Let the recorder be recording, with the listeners
  of its map as the capture listeners on \<open>document\<close> (as \<open>startRecording\<close> leaves
  them). \<open>stopRecording\<close> returns the records, clears \<open>isRecording\<close>, removes
  these listeners from \<open>document\<close> and empties the map. While the recorder is
  stopped, a round of the URL poll and an event that reaches \<open>document\<close> add no
  record, because \<open>recordEvent\<close> and the wrapped handlers test \<open>isRecording\<close>. A
  start after the stop begins with no records, the new session id and start time, and
  one capture listener for each event type of the options.
\<close>

lemma stopRecording_gates_capture:
  assumes recording: "isRecording m"
    and installed: "set (documentListeners m) \<subseteq> set (listeners m)"
  shows "fst (stopRecording m) = sessionRecords m
       \<and> \<not> isRecording (snd (stopRecording m))
       \<and> listeners (snd (stopRecording m)) = []
       \<and> documentListeners (snd (stopRecording m)) = []
       \<and> sessionRecords (urlPollTick t href (snd (stopRecording m))) = sessionRecords m
       \<and> sessionRecords (documentEvent t href eventType event (snd (stopRecording m)))
           = sessionRecords m
       \<and> isRecording (startRecording t sid href (snd (stopRecording m)))
       \<and> sessionRecords (startRecording t sid href (snd (stopRecording m))) = []
       \<and> sessionId (startRecording t sid href (snd (stopRecording m))) = sid
       \<and> recordingStart (startRecording t sid href (snd (stopRecording m))) = Some t
       \<and> map fst (documentListeners (startRecording t sid href (snd (stopRecording m))))
           = listenerTypes (flags m)"
proof -
  define s where "s = snd (stopRecording m)"
  from installed have "filter (\<lambda>l. l \<notin> set (listeners m)) (documentListeners m) = []"
    by (auto simp: filter_empty_conv)
  with recording have s: "s = m\<lparr> isRecording := False, documentListeners := [], listeners := [] \<rparr>"
    by (simp add: s_def stopRecording_def)
  have a: "fst (stopRecording m) = sessionRecords m"
    using recording by (simp add: stopRecording_def)
  have b: "\<not> isRecording s" "listeners s = []" "documentListeners s = []"
    "sessionRecords s = sessionRecords m" "flags s = flags m"
    by (simp_all add: s)
  have c: "sessionRecords (urlPollTick t href s) = sessionRecords m"
    using urlPollTick_idle [OF b(1), of t href] b(4) by simp
  have d: "sessionRecords (documentEvent t href eventType event s) = sessionRecords m"
    using documentEvent_idle [OF b(1), of t href eventType event] b(4) by simp
  from startRecording_clean [OF b(1) b(2) b(3), of t sid href]
  have e: "isRecording (startRecording t sid href s)"
    "sessionRecords (startRecording t sid href s) = []"
    "sessionId (startRecording t sid href s) = sid"
    "recordingStart (startRecording t sid href s) = Some t"
    "map fst (documentListeners (startRecording t sid href s)) = listenerTypes (flags m)"
    unfolding b(5) by blast+
  from a b(1-3) c d e show ?thesis
    unfolding s_def [symmetric] by blast
qed

text \<open>
  What \<open>startRecording\<close> starts besides the listeners: one more URL poll when
  \<open>recordNavigation\<close> is on, and one more observer when \<open>recordScroll\<close> is on.
\<close>

lemma startRecording_timers:
  assumes idle: "\<not> isRecording r" and nol: "listeners r = []"
  shows "isRecording (startRecording now sid href r)
       \<and> sessionRecords (startRecording now sid href r) = []
       \<and> sessionId (startRecording now sid href r) = sid
       \<and> recordingStart (startRecording now sid href r) = Some now
       \<and> flags (startRecording now sid href r) = flags r
       \<and> intervals (startRecording now sid href r)
           = (if recordNavigation (flags r) then intervals r @ [href] else intervals r)
       \<and> observers (startRecording now sid href r)
           = (if recordScroll (flags r) then observers r + 1 else observers r)"
proof -
  define r1 where
    "r1 = r\<lparr> isRecording := True, recordingStart := Some now, sessionId := sid,
              sessionRecords := [] \<rparr>"
  have "set (listenerTypes (flags r)) \<inter> fst ` set (listeners r1) = {}"
    by (simp add: r1_def nol)
  from foldl_addListener [OF distinct_listenerTypes this]
  have n: "isRecording (foldl addListener r1 (listenerTypes (flags r))) = isRecording r1"
    "sessionRecords (foldl addListener r1 (listenerTypes (flags r))) = sessionRecords r1"
    "sessionId (foldl addListener r1 (listenerTypes (flags r))) = sessionId r1"
    "recordingStart (foldl addListener r1 (listenerTypes (flags r))) = recordingStart r1"
    "intervals (foldl addListener r1 (listenerTypes (flags r))) = intervals r1"
    "observers (foldl addListener r1 (listenerTypes (flags r))) = observers r1"
    "flags (foldl addListener r1 (listenerTypes (flags r))) = flags r1"
    by blast+
  from idle show ?thesis
    unfolding startRecording_def Let_def r1_def [symmetric]
    by (simp add: n) (simp add: r1_def)
qed

lemma stopRecording_keeps_timers:
  assumes "isRecording m"
  shows "\<not> isRecording (snd (stopRecording m))
       \<and> listeners (snd (stopRecording m)) = []
       \<and> flags (snd (stopRecording m)) = flags m
       \<and> intervals (snd (stopRecording m)) = intervals m
       \<and> observers (snd (stopRecording m)) = observers m"
  using assms by (simp add: stopRecording_def)

text \<open>
  A round of the URL poll of a recording recorder with two live polls that both hold a
  URL other than the current one: each of them records the change.
\<close>

lemma urlPollTick_two_polls:
  assumes "isRecording r" and "intervals r = [a, b]" and "href \<noteq> a" and "href \<noteq> b"
  shows "sessionRecords (urlPollTick now href r)
         = sessionRecords r @
             map (\<lambda>currentUrl.
                    \<lparr> sr_event = \<lparr> ce_type = ''url-change'',
                                    ce_fields = [(''from'', JStr currentUrl), (''to'', JStr href)] \<rparr>,
                      sr_sessionId = sessionId r,
                      sr_timestamp = now - (case recordingStart r of Some t \<Rightarrow> t | None \<Rightarrow> 0),
                      sr_url = href, sr_timestampAbsolute = now \<rparr>) [a, b]
       \<and> intervals (urlPollTick now href r) = [href, href]"
  using assms by (simp add: urlPollTick_def recordEvent_def Let_def)

text \<open>
  Claim C8 on a recorder that is stopped and started again. \<open>stopRecording\<close>,
  commented as removing every listener, keeps no handle of the URL poll and of the
  observer and cancels neither: after a start and a stop of a new recorder with
  \<open>recordNavigation\<close> on, the poll is still live
  (and so is the observer when \<open>recordScroll\<close> is on). A second start adds a second
  poll beside it, so that the next change of the URL is recorded twice in the new
  session, once by the poll carried over from the first recording.
\<close>

theorem url_poll_survives_stopRecording:
  assumes nav: "recordNavigation fl" and changed: "href' \<noteq> href"
  shows "intervals (snd (stopRecording (startRecording t1 sid1 href (newRecorder fl sid0))))
           = [href]
       \<and> (recordScroll fl \<longrightarrow>
            observers (snd (stopRecording (startRecording t1 sid1 href (newRecorder fl sid0))))
              = 1)
       \<and> intervals
            (startRecording t2 sid2 href
              (snd (stopRecording (startRecording t1 sid1 href (newRecorder fl sid0)))))
           = [href, href]
       \<and> sessionRecords
            (urlPollTick t3 href'
              (startRecording t2 sid2 href
                (snd (stopRecording (startRecording t1 sid1 href (newRecorder fl sid0))))))
           = replicate 2
               \<lparr> sr_event = \<lparr> ce_type = ''url-change'',
                               ce_fields = [(''from'', JStr href), (''to'', JStr href')] \<rparr>,
                 sr_sessionId = sid2, sr_timestamp = t3 - t2, sr_url = href',
                 sr_timestampAbsolute = t3 \<rparr>"
proof -
  define r0 where "r0 = newRecorder fl sid0"
  define m1 where "m1 = startRecording t1 sid1 href r0"
  define s where "s = snd (stopRecording m1)"
  define m2 where "m2 = startRecording t2 sid2 href s"
  have r0: "\<not> isRecording r0" "listeners r0 = []" "flags r0 = fl" "intervals r0 = []"
    "observers r0 = 0"
    by (simp_all add: r0_def newRecorder_def)
  from startRecording_timers [OF r0(1) r0(2), of t1 sid1 href] nav r0
  have m1: "isRecording m1" "flags m1 = fl" "intervals m1 = [href]"
    "observers m1 = (if recordScroll fl then 1 else 0)"
    by (simp_all add: m1_def)
  from stopRecording_keeps_timers [OF m1(1)] m1
  have s: "\<not> isRecording s" "listeners s = []" "flags s = fl" "intervals s = [href]"
    "observers s = (if recordScroll fl then 1 else 0)"
    by (simp_all add: s_def)
  from startRecording_timers [OF s(1) s(2), of t2 sid2 href] nav s
  have m2: "isRecording m2" "sessionRecords m2 = []" "sessionId m2 = sid2"
    "recordingStart m2 = Some t2" "intervals m2 = [href, href]"
    by (simp_all add: m2_def)
  from urlPollTick_two_polls [OF m2(1) m2(5) changed changed, of t3] m2
  have "sessionRecords (urlPollTick t3 href' m2)
        = replicate 2
            \<lparr> sr_event = \<lparr> ce_type = ''url-change'',
                            ce_fields = [(''from'', JStr href), (''to'', JStr href')] \<rparr>,
              sr_sessionId = sid2, sr_timestamp = t3 - t2, sr_url = href',
              sr_timestampAbsolute = t3 \<rparr>"
    by (simp add: numeral_2_eq_2)
  with s(4) s(5) m2(5) show ?thesis
    unfolding m2_def s_def m1_def r0_def by simp
qed

text \<open>
  A recorder with every option on is started on \<open>http://a/\<close> at time 0, stopped, and
  started again at time 10; at time 20 the poll finds the URL \<open>http://a/y\<close>.
\<close>

theorem url_poll_survives_stopRecording_witness:
  "(let fl = \<lparr> recordMouse = True, recordKeyboard = True, recordScroll = True,
               recordResize = True, recordNavigation = True, recordFormInputs = True,
               recordClicks = True \<rparr>;
        s = snd (stopRecording (startRecording 0 ''s1'' ''http://a/'' (newRecorder fl ''s0'')));
        m = urlPollTick 20 ''http://a/y'' (startRecording 10 ''s2'' ''http://a/'' s)
    in intervals s = [''http://a/'']
     \<and> observers s = 1
     \<and> map (ce_type \<circ> sr_event) (sessionRecords m) = [''url-change'', ''url-change'']
     \<and> map sr_sessionId (sessionRecords m) = [''s2'', ''s2'']
     \<and> map sr_timestamp (sessionRecords m) = [10, 10])"
proof -
  define fl where
    "fl = \<lparr> recordMouse = True, recordKeyboard = True, recordScroll = True,
            recordResize = True, recordNavigation = True, recordFormInputs = True,
            recordClicks = True \<rparr>"
  have n: "recordNavigation fl" and sc: "recordScroll fl" by (simp_all add: fl_def)
  have c: "''http://a/y'' \<noteq> ''http://a/''" by simp
  from url_poll_survives_stopRecording [OF n c, of 0 "''s1''" "''s0''" 10 "''s2''" 20] sc
  show ?thesis
    unfolding Let_def fl_def [symmetric] by (simp add: numeral_2_eq_2)
qed

end
